theory Spec2Isabelle
  imports Complex_Main
begin

section \<open>Numbers and convolution parameters\<close>

text \<open>
  The source is TypeScript; its \<open>number\<close> is modelled by the exact rationals wherever the
  code itself tests for integrality (\<open>Number.isInteger\<close>), and by the integers for the
  extents of a view. Rounding, \<open>NaN\<close> and the infinities of IEEE doubles are outside the
  model.

  \<open>ConvParams\<close> (convolution.ts, lines 13-18) is the parameter record of a general
  dilated convolution. A padding entry has the TypeScript type \<open>[number, number]\<close>, a
  pair, so the test \<open>padding[i].length !== 2\<close> of \<open>checkConvShape\<close> cannot fire on a
  well-typed input and has no branch in the model.
\<close>

record 'n ConvParams =
  strides :: "'n list"
  padding :: "('n \<times> 'n) list"
  lhsDilation :: "'n list"
  rhsDilation :: "'n list"

definition isInteger :: "rat \<Rightarrow> bool" where
  "isInteger q \<longleftrightarrow> of_int \<lfloor>q\<rfloor> = q"

definition ceil :: "rat \<Rightarrow> rat" where
  "ceil q = of_int \<lceil>q\<rceil>"

section \<open>checkConvShape\<close>

text \<open>One constructor for each \<open>throw\<close> of \<open>checkConvShape\<close>, in the order of the source.\<close>

datatype conv_error =
    RankMismatch nat nat
  | NotAtLeast2D
  | StridesLength
  | PaddingLength
  | LhsDilationLength
  | RhsDilationLength
  | InputChannels rat rat
  | StrideNotPositiveInteger nat
  | PaddingNotNonNegative nat
  | LhsDilationNotPositiveInteger nat
  | RhsDilationNotPositiveInteger nat
  | KernelSizeNotPositive
  | KernelTooLarge rat rat nat

definition kernelSize :: "rat list \<Rightarrow> rat ConvParams \<Rightarrow> nat \<Rightarrow> rat" where
  "kernelSize rhsShape p i = (rhsShape ! (i + 2) - 1) * rhsDilation p ! i + 1"

definition inSize :: "rat list \<Rightarrow> rat ConvParams \<Rightarrow> nat \<Rightarrow> rat" where
  "inSize lhsShape p i =
     max ((lhsShape ! (i + 2) - 1) * lhsDilation p ! i + 1) 0
       + fst (padding p ! i) + snd (padding p ! i)"

text \<open>
  The body of the \<open>for\<close> loop over the spatial dimensions (lines 71-92): the list argument
  holds the indices still to visit, \<open>outShape\<close> the shape built so far.
\<close>

fun checkSpatial ::
  "rat list \<Rightarrow> rat list \<Rightarrow> rat ConvParams \<Rightarrow> nat list \<Rightarrow> rat list \<Rightarrow> conv_error + rat list"
where
  "checkSpatial lhsShape rhsShape p [] outShape = Inr outShape"
| "checkSpatial lhsShape rhsShape p (i # rest) outShape =
     (if strides p ! i \<le> 0 \<or> \<not> isInteger (strides p ! i)
        then Inl (StrideNotPositiveInteger i)
      else if \<not> (fst (padding p ! i) \<ge> 0 \<and> snd (padding p ! i) \<ge> 0)
        then Inl (PaddingNotNonNegative i)
      else if lhsDilation p ! i \<le> 0 \<or> \<not> isInteger (lhsDilation p ! i)
        then Inl (LhsDilationNotPositiveInteger i)
      else if rhsDilation p ! i \<le> 0 \<or> \<not> isInteger (rhsDilation p ! i)
        then Inl (RhsDilationNotPositiveInteger i)
      else if rhsShape ! (i + 2) \<le> 0
        then Inl KernelSizeNotPositive
      else if kernelSize rhsShape p i > inSize lhsShape p i
        then Inl (KernelTooLarge (kernelSize rhsShape p i) (inSize lhsShape p i) i)
      else checkSpatial lhsShape rhsShape p rest
             (outShape @ [ceil ((inSize lhsShape p i - kernelSize rhsShape p i + 1) / strides p ! i)]))"

definition checkConvShape ::
  "rat list \<Rightarrow> rat list \<Rightarrow> rat ConvParams \<Rightarrow> conv_error + rat list"
where
  "checkConvShape lhsShape rhsShape p =
     (if length lhsShape \<noteq> length rhsShape
        then Inl (RankMismatch (length lhsShape) (length rhsShape))
      else let n = int (length lhsShape) - 2 in
        if n < 0 then Inl NotAtLeast2D
        else if int (length (strides p)) \<noteq> n then Inl StridesLength
        else if int (length (padding p)) \<noteq> n then Inl PaddingLength
        else if int (length (lhsDilation p)) \<noteq> n then Inl LhsDilationLength
        else if int (length (rhsDilation p)) \<noteq> n then Inl RhsDilationLength
        else if lhsShape ! 1 \<noteq> rhsShape ! 1
          then Inl (InputChannels (lhsShape ! 1) (rhsShape ! 1))
        else checkSpatial lhsShape rhsShape p [0..<nat n] [lhsShape ! 0, rhsShape ! 0])"

text \<open>The test a spatial dimension passes when none of the six throws of the loop fires.\<close>

definition spatialOk :: "rat list \<Rightarrow> rat list \<Rightarrow> rat ConvParams \<Rightarrow> nat \<Rightarrow> bool" where
  "spatialOk lhsShape rhsShape p i \<longleftrightarrow>
     0 < strides p ! i \<and> isInteger (strides p ! i)
   \<and> 0 \<le> fst (padding p ! i) \<and> 0 \<le> snd (padding p ! i)
   \<and> 0 < lhsDilation p ! i \<and> isInteger (lhsDilation p ! i)
   \<and> 0 < rhsDilation p ! i \<and> isInteger (rhsDilation p ! i)
   \<and> 0 < rhsShape ! (i + 2)
   \<and> kernelSize rhsShape p i \<le> inSize lhsShape p i"

definition spatialOut :: "rat list \<Rightarrow> rat list \<Rightarrow> rat ConvParams \<Rightarrow> nat \<Rightarrow> rat" where
  "spatialOut lhsShape rhsShape p i =
     ceil ((inSize lhsShape p i - kernelSize rhsShape p i + 1) / strides p ! i)"

text \<open>
  The failure condition as the specification lists it (section 4.4): rank mismatch, a
  parameter list whose length is not the number of spatial dimensions, different input
  channel counts, a stride or dilation that is not a positive integer, a negative padding
  entry, a dilated kernel larger than the dilated and padded input.
\<close>

definition specifiedFailure :: "rat list \<Rightarrow> rat list \<Rightarrow> rat ConvParams \<Rightarrow> bool" where
  "specifiedFailure lhsShape rhsShape p \<longleftrightarrow>
     length lhsShape \<noteq> length rhsShape
   \<or> int (length (strides p)) \<noteq> int (length lhsShape) - 2
   \<or> int (length (padding p)) \<noteq> int (length lhsShape) - 2
   \<or> int (length (lhsDilation p)) \<noteq> int (length lhsShape) - 2
   \<or> int (length (rhsDilation p)) \<noteq> int (length lhsShape) - 2
   \<or> lhsShape ! 1 \<noteq> rhsShape ! 1
   \<or> list_ex (\<lambda>i.
         \<not> (0 < strides p ! i \<and> isInteger (strides p ! i))
       \<or> \<not> (0 < lhsDilation p ! i \<and> isInteger (lhsDilation p ! i))
       \<or> \<not> (0 < rhsDilation p ! i \<and> isInteger (rhsDilation p ! i))
       \<or> fst (padding p ! i) < 0 \<or> snd (padding p ! i) < 0
       \<or> kernelSize rhsShape p i > inSize lhsShape p i)
       [0..<length lhsShape - 2]"

section \<open>Helpers of utils\<close>

text \<open>
  Modelled from the spec: the helpers \<open>prod\<close>, \<open>range\<close>, \<open>rep\<close> and \<open>zipn\<close> of
  \<open>utils\<close> are imported by convolution.ts and are not among the sources. They are the
  product of a list, the list \<open>0, ..., n-1\<close>, \<open>n\<close> copies of a value, and the zip of
  several lists up to the length of the shortest, which is what the per-axis
  computations of section 4.2 use them for.
\<close>

definition prodN :: "int list \<Rightarrow> int" where
  "prodN xs = foldr (*) xs 1"

definition rangeN :: "nat \<Rightarrow> nat list" where
  "rangeN n = [0..<n]"

definition rep :: "nat \<Rightarrow> 'a \<Rightarrow> 'a list" where
  "rep n x = replicate n x"

definition zipn3 :: "'a list \<Rightarrow> 'b list \<Rightarrow> 'c list \<Rightarrow> ('a \<times> 'b \<times> 'c) list" where
  "zipn3 as bs cs = zip as (zip bs cs)"

definition zipn4 ::
  "'a list \<Rightarrow> 'b list \<Rightarrow> 'c list \<Rightarrow> 'd list \<Rightarrow> ('a \<times> 'b \<times> 'c \<times> 'd) list"
where
  "zipn4 as bs cs ds = zip as (zip bs (zip cs ds))"

definition zipn5 ::
  "'a list \<Rightarrow> 'b list \<Rightarrow> 'c list \<Rightarrow> 'd list \<Rightarrow> 'e list
     \<Rightarrow> ('a \<times> 'b \<times> 'c \<times> 'd \<times> 'e) list"
where
  "zipn5 as bs cs ds es = zip as (zip bs (zip cs (zip ds es)))"

text \<open>
  \<open>Array.prototype.slice(start, end)\<close> of JavaScript: a negative index counts from the
  end, and \<open>-0\<close> is \<open>0\<close>, so \<open>xs.slice(0, -0)\<close> is empty and \<open>xs.slice(-0)\<close> is all
  of \<open>xs\<close>.
\<close>

definition slice :: "'a list \<Rightarrow> int \<Rightarrow> int \<Rightarrow> 'a list" where
  "slice xs start end =
     (let n = int (length xs);
          s = (if start < 0 then max (n + start) 0 else min start n);
          e = (if end < 0 then max (n + end) 0 else min end n)
      in take (nat (e - s)) (drop (nat s) xs))"

definition sliceFrom :: "'a list \<Rightarrow> int \<Rightarrow> 'a list" where
  "sliceFrom xs start = slice xs start (int (length xs))"

text \<open>
  \<open>Math.ceil(a / b)\<close> on integers. With \<open>b = 0\<close> the JavaScript quotient is an infinity
  or \<open>NaN\<close>, which is no extent of a view: the model has no value for it.
\<close>

definition ceilDiv :: "int \<Rightarrow> int \<Rightarrow> int option" where
  "ceilDiv a b = (if b = 0 then None else Some \<lceil>rat_of_int a / rat_of_int b\<rceil>)"

section \<open>Views\<close>

text \<open>
  Modelled from the spec: the class \<open>ShapeTracker\<close> of \<open>shape\<close> is imported by
  convolution.ts and is not among the sources. Sections 3 and 4.1 describe it: a view has
  a \<open>shape\<close>, a sequence of non-negative extents, and is an addressing function that maps
  a logical index (one integer per axis) to an offset into the flat backing buffer or to
  the tagged out-of-bounds result of a padded position (\<open>None\<close>). Every operation returns
  a new view and composes the addressing by "threading the inverse transform back to the
  base view":
  \<^item> \<open>reshape\<close> fails unless the total element count is unchanged, and reads the old view
    in row-major order;
  \<^item> \<open>pad\<close> extends each axis by a non-negative (low, high) pair of positions that read as
    the fill value;
  \<^item> \<open>shrink\<close> restricts each axis to a sub-range \<open>[low, high)\<close> of its extent (the source
    keeps a whole axis of extent \<open>x\<close> with the pair \<open>[0, x]\<close>);
  \<^item> \<open>repeat\<close> is the tiling form of the spec's \<open>expand\<close>: every index along a repeated
    axis addresses the element of the original period;
  \<^item> \<open>permute\<close> takes a permutation of all axis indices, \<open>moveaxis\<close> is its
    specialisation.
  An argument that does not fit the view (wrong number of axes, a range outside the
  extent, a different element count, no permutation) is rejected.
\<close>

type_synonym Pair = "int \<times> int"

record ShapeTracker =
  shape :: "int list"
  addr :: "int list \<Rightarrow> int option"

datatype st_error =
    InvalidReshape
  | InvalidPad
  | InvalidShrink
  | InvalidRepeat
  | InvalidPermute
  | NonFinite
  | TooManyDimensions

definition bindE :: "'e + 'a \<Rightarrow> ('a \<Rightarrow> 'e + 'b) \<Rightarrow> 'e + 'b" where
  "bindE m f = (case m of Inl e \<Rightarrow> Inl e | Inr x \<Rightarrow> f x)"

definition inBounds :: "int list \<Rightarrow> int list \<Rightarrow> bool" where
  "inBounds shp idx \<longleftrightarrow> list_all2 (\<lambda>n i. 0 \<le> i \<and> i < n) shp idx"

fun ravel :: "int list \<Rightarrow> int list \<Rightarrow> int" where
  "ravel (n # ns) (i # is) = i * prodN ns + ravel ns is"
| "ravel _ _ = 0"

fun unravel :: "int list \<Rightarrow> int \<Rightarrow> int list" where
  "unravel [] k = []"
| "unravel (n # ns) k = (k div prodN ns) # unravel ns (k mod prodN ns)"

definition fromShape :: "int list \<Rightarrow> ShapeTracker" where
  "fromShape shp =
     \<lparr>shape = shp, addr = (\<lambda>idx. if inBounds shp idx then Some (ravel shp idx) else None)\<rparr>"

definition reshape :: "ShapeTracker \<Rightarrow> int list \<Rightarrow> st_error + ShapeTracker" where
  "reshape st newShape =
     (if list_all (\<lambda>n. 0 \<le> n) newShape \<and> prodN newShape = prodN (shape st)
      then Inr \<lparr>shape = newShape,
                addr = (\<lambda>idx. addr st (unravel (shape st) (ravel newShape idx)))\<rparr>
      else Inl InvalidReshape)"

definition pad :: "ShapeTracker \<Rightarrow> Pair list \<Rightarrow> st_error + ShapeTracker" where
  "pad st arg =
     (if length arg = length (shape st) \<and> list_all (\<lambda>(b, e). 0 \<le> b \<and> 0 \<le> e) arg
      then Inr \<lparr>shape = map2 (\<lambda>n (b, e). b + n + e) (shape st) arg,
                addr = (\<lambda>idx.
                  if inBounds (shape st) (map2 (\<lambda>i (b, e). i - b) idx arg)
                  then addr st (map2 (\<lambda>i (b, e). i - b) idx arg) else None)\<rparr>
      else Inl InvalidPad)"

definition shrink :: "ShapeTracker \<Rightarrow> Pair list \<Rightarrow> st_error + ShapeTracker" where
  "shrink st arg =
     (if list_all2 (\<lambda>n (b, e). 0 \<le> b \<and> b \<le> e \<and> e \<le> n) (shape st) arg
      then Inr \<lparr>shape = map (\<lambda>(b, e). e - b) arg,
                addr = (\<lambda>idx. addr st (map2 (\<lambda>i (b, e). i + b) idx arg))\<rparr>
      else Inl InvalidShrink)"

definition repeat :: "ShapeTracker \<Rightarrow> int list \<Rightarrow> st_error + ShapeTracker" where
  "repeat st reps =
     (if length reps = length (shape st) \<and> list_all (\<lambda>r. 0 \<le> r) reps
      then Inr \<lparr>shape = map2 (*) (shape st) reps,
                addr = (\<lambda>idx. addr st (map2 (\<lambda>i n. i mod n) idx (shape st)))\<rparr>
      else Inl InvalidRepeat)"

definition permute :: "ShapeTracker \<Rightarrow> nat list \<Rightarrow> st_error + ShapeTracker" where
  "permute st axes =
     (if distinct axes \<and> set axes = set [0..<length (shape st)]
      then Inr \<lparr>shape = map (\<lambda>a. shape st ! a) axes,
                addr = (\<lambda>idx. addr st
                  (fold (\<lambda>(a, i) acc. acc[a := i]) (zip axes idx)
                     (replicate (length (shape st)) 0)))\<rparr>
      else Inl InvalidPermute)"

definition moveaxis :: "ShapeTracker \<Rightarrow> nat \<Rightarrow> nat \<Rightarrow> st_error + ShapeTracker" where
  "moveaxis st src dst =
     (let others = filter (\<lambda>a. a \<noteq> src) [0..<length (shape st)]
      in permute st (take dst others @ [src] @ drop dst others))"

section \<open>pool\<close>

text \<open>
  \<open>pool\<close> (convolution.ts, lines 106-184). The TypeScript type \<open>number | number[]\<close> of
  \<open>strides\<close> and \<open>dilation\<close> is a datatype with two constructors; their default value
  is \<open>Number 1\<close>. The constants \<open>o_\<close> and \<open>f_\<close> of the source are \<open>pool_o\<close> and
  \<open>pool_f\<close>. Where a quotient of the source is not finite (a stride or an input extent
  of zero) JavaScript goes on with an infinity or \<open>NaN\<close> as an extent, which no view
  operation accepts; the model stops there with \<open>NonFinite\<close>.
\<close>

datatype numberOrList = Number int | Numbers "int list"

definition pool_o :: "int list \<Rightarrow> int list \<Rightarrow> int list \<Rightarrow> int list \<Rightarrow> int list option" where
  "pool_o i_s d_s ks s_s =
     those (map (\<lambda>(i, d, k, s). ceilDiv (i - d * (k - 1)) s) (zipn4 i_s d_s ks s_s))"

definition pool_f :: "int list \<Rightarrow> int list \<Rightarrow> int list \<Rightarrow> int list \<Rightarrow> int list \<Rightarrow> int list" where
  "pool_f o_s s_s i_s d_s ks =
     map (\<lambda>(o', s, i, d, k). 1 + (if o' * s > i - d * (k - 1) then 1 else 0))
       (zipn5 o_s s_s i_s d_s ks)"

definition pool ::
  "ShapeTracker \<Rightarrow> int list \<Rightarrow> numberOrList \<Rightarrow> numberOrList \<Rightarrow> st_error + ShapeTracker"
where
  "pool st ks stridesArg dilationArg =
    (if length (shape st) < length ks then Inl TooManyDimensions
     else
      let s_s = (case stridesArg of Number v \<Rightarrow> rep (length ks) v | Numbers l \<Rightarrow> l);
          d_s = (case dilationArg of Number v \<Rightarrow> rep (length ks) v | Numbers l \<Rightarrow> l);
          noop = slice (shape st) 0 (- int (length ks));
          i_s = sliceFrom (shape st) (- int (length ks))
      in case pool_o i_s d_s ks s_s of
        None \<Rightarrow> Inl NonFinite
      | Some o_s \<Rightarrow>
      let f_s = pool_f o_s s_s i_s d_s ks;
          kidf = zipn4 ks i_s d_s f_s
      in case those (map (\<lambda>(k, i, d, f). ceilDiv (k * (i * f + d)) i) kidf) of
        None \<Rightarrow> Inl NonFinite
      | Some reps \<Rightarrow>
      bindE (repeat st (rep (length noop) 1 @ reps)) (\<lambda>st.
      bindE (shrink st (map (\<lambda>x. (0, x)) noop
                         @ map (\<lambda>(k, i, d, f). (0, k * (i * f + d))) kidf)) (\<lambda>st.
      bindE (reshape st (noop @ concat (map (\<lambda>(k, i, d, f). [k, i * f + d]) kidf))) (\<lambda>st.
      let kos = zipn3 ks o_s s_s in
      bindE (shrink st (map (\<lambda>x. (0, x)) noop
                         @ concat (map (\<lambda>(k, o', s). [(0, k), (0, o' * s)]) kos))) (\<lambda>st.
      bindE (reshape st (noop @ concat (map (\<lambda>(k, o', s). [k, o', s]) kos))) (\<lambda>st.
      bindE (shrink st (map (\<lambda>x. (0, x)) noop
                         @ concat (map (\<lambda>(k, o', s). [(0, k), (0, o'), (0, 1)]) kos))) (\<lambda>st.
      bindE (reshape st (noop @ concat (map (\<lambda>(k, o', s). [k, o']) kos))) (\<lambda>st.
      permute st (rangeN (length noop)
                  @ map (\<lambda>j. length noop + 2 * j + 1) [0..<length ks]
                  @ map (\<lambda>j. length noop + 2 * j) [0..<length ks])))))))))"

section \<open>applyDilation and prepareConv\<close>

text \<open>
  \<open>applyDilation\<close> (lines 187-208). The destructuring \<open>[a, b, ...k_] = st.shape\<close> leaves
  \<open>a\<close> or \<open>b\<close> undefined on a view of fewer than two axes, and \<open>s_[i]\<close> is undefined
  beyond the end of \<open>dilation\<close>; an undefined extent is no shape, so the \<open>reshape\<close> that
  receives it rejects it.
\<close>

definition applyDilation :: "ShapeTracker \<Rightarrow> int list \<Rightarrow> st_error + ShapeTracker" where
  "applyDilation st dilation =
     (if list_all (\<lambda>s. s = 1) dilation then Inr st
      else case shape st of
        a # b # k_s \<Rightarrow>
          bindE (reshape st (a # b # concat (map (\<lambda>k. [k, 1]) k_s))) (\<lambda>st.
          bindE (pad st ((0, 0) # (0, 0) # concat (map (\<lambda>s. [(0, 0), (0, s - 1)]) dilation))) (\<lambda>st.
          if length dilation < length k_s then Inl InvalidReshape
          else
          bindE (reshape st (a # b # map (\<lambda>i. k_s ! i * dilation ! i) [0..<length k_s])) (\<lambda>st.
          shrink st ((0, a) # (0, b)
                      # map (\<lambda>i. (0, (k_s ! i - 1) * dilation ! i + 1)) [0..<length k_s]))))
      | _ \<Rightarrow> Inl InvalidReshape)"

text \<open>
  \<open>prepareConv\<close> (lines 216-243). \<open>stX.shape[0]\<close>, \<open>stX.shape[1]\<close>, \<open>stY.shape[0]\<close> and
  \<open>stY.shape[1]\<close> are undefined on a view of fewer than two axes, and the \<open>reshape\<close> that
  receives them rejects them. The number \<open>n\<close> of spatial dimensions is not negative
  once \<open>pad\<close> has accepted its two leading pairs.
\<close>

definition prepareConv ::
  "ShapeTracker \<Rightarrow> ShapeTracker \<Rightarrow> int ConvParams \<Rightarrow> st_error + ShapeTracker \<times> ShapeTracker"
where
  "prepareConv stX stY params =
     (let n = int (length (shape stX)) - 2 in
      bindE (applyDilation stX (lhsDilation params)) (\<lambda>stX.
      let ks = sliceFrom (shape stY) 2 in
      bindE (pad stX ((0, 0) # (0, 0) # padding params)) (\<lambda>stX.
      bindE (pool stX ks (Numbers (strides params)) (Numbers (rhsDilation params))) (\<lambda>stX.
      bindE (moveaxis stX 1 (nat (n + 1))) (\<lambda>moved.
      if length (shape stX) < 2 then Inl InvalidReshape
      else
      bindE (reshape moved
               ([shape stX ! 0, 1] @ slice (shape stX) 2 (n + 2) @ [shape stX ! 1 * prodN ks])) (\<lambda>stX.
      if length (shape stY) < 2 then Inl InvalidReshape
      else
      bindE (reshape stY ([shape stY ! 0] @ rep (nat n) 1 @ [shape stY ! 1 * prodN ks])) (\<lambda>stY.
      Inr (stX, stY))))))))"

section \<open>Arrays and the convolution primitive\<close>

text \<open>
  Modelled from the spec: the class \<open>Array\<close> of \<open>frontend/array\<close> and the primitive
  \<open>conv\<close> of \<open>frontend/core\<close> are imported by lax.ts and are not among the sources. By
  sections 2 and 4.4 a tensor is a view over a flat buffer, and the convolution is:
  validate with \<open>checkConvShape\<close>, build the two views with \<open>prepareConv\<close>, multiply
  elementwise with the two shapes broadcast against each other, and sum over the final
  axis. A padded position reads as the fill value zero (section 4.1); an offset beyond the
  buffer is an execution error (section 4.5). \<open>conv(lhs, rhs)\<close>, called without
  parameters, is the convolution with the default parameters of the test scenario of
  section 8 (unit strides, zero padding, unit dilations). The type \<open>nested\<close> is the
  nested JavaScript array that \<open>np.array\<close> accepts and \<open>.js()\<close> returns in the tests.
\<close>

datatype nested = Leaf rat | Nest "nested list"

fun nestedShape :: "nested \<Rightarrow> int list" where
  "nestedShape (Leaf v) = []"
| "nestedShape (Nest []) = [0]"
| "nestedShape (Nest (x # xs)) = int (length (x # xs)) # nestedShape x"

fun flattenNested :: "nested \<Rightarrow> rat list" where
  "flattenNested (Leaf v) = [v]"
| "flattenNested (Nest xs) = concat (map flattenNested xs)"

fun toNested :: "int list \<Rightarrow> rat list \<Rightarrow> nested" where
  "toNested [] vs = Leaf (case vs of [] \<Rightarrow> 0 | v # _ \<Rightarrow> v)"
| "toNested (n # ns) vs =
     Nest (map (\<lambda>j. toNested ns (take (nat (prodN ns)) (drop (j * nat (prodN ns)) vs)))
             [0..<nat n])"

record Array =
  buffer :: "rat list"
  view :: ShapeTracker

datatype conv_failure = ShapeError conv_error | ViewError st_error | ExecutionError

definition array :: "nested \<Rightarrow> Array" where
  "array v = \<lparr>buffer = flattenNested v, view = fromShape (nestedShape v)\<rparr>"

fun indices :: "int list \<Rightarrow> int list list" where
  "indices [] = [[]]"
| "indices (n # ns) = concat (map (\<lambda>i. map ((#) i) (indices ns)) [0..n - 1])"

definition readAt :: "rat list \<Rightarrow> ShapeTracker \<Rightarrow> int list \<Rightarrow> rat option" where
  "readAt buf st idx =
     (case addr st idx of
        None \<Rightarrow> Some 0
      | Some off \<Rightarrow> if 0 \<le> off \<and> off < int (length buf) then Some (buf ! nat off) else None)"

definition js :: "Array \<Rightarrow> conv_failure + nested" where
  "js a = (case those (map (readAt (buffer a) (view a)) (indices (shape (view a)))) of
             None \<Rightarrow> Inl ExecutionError
           | Some vs \<Rightarrow> Inr (toNested (shape (view a)) vs))"

fun broadcastShapesRev :: "int list \<Rightarrow> int list \<Rightarrow> int list option" where
  "broadcastShapesRev [] bs = Some bs"
| "broadcastShapesRev as [] = Some as"
| "broadcastShapesRev (a # as) (b # bs) =
     (if a = b \<or> b = 1 then map_option ((#) a) (broadcastShapesRev as bs)
      else if a = 1 then map_option ((#) b) (broadcastShapesRev as bs)
      else None)"

definition broadcastShapes :: "int list \<Rightarrow> int list \<Rightarrow> int list option" where
  "broadcastShapes as bs = map_option rev (broadcastShapesRev (rev as) (rev bs))"

definition broadcastIndex :: "int list \<Rightarrow> int list \<Rightarrow> int list" where
  "broadcastIndex shp idx =
     map2 (\<lambda>n i. if n = 1 then 0 else i) shp (drop (length idx - length shp) idx)"

definition multiplyReduce ::
  "rat list \<Rightarrow> ShapeTracker \<Rightarrow> rat list \<Rightarrow> ShapeTracker \<Rightarrow> (int list \<times> rat list) option"
where
  "multiplyReduce bufX stX bufY stY =
     (case broadcastShapes (shape stX) (shape stY) of
        None \<Rightarrow> None
      | Some full \<Rightarrow>
          if full = [] then None
          else
            map_option (Pair (butlast full))
              (those (map (\<lambda>idx.
                  map_option sum_list
                    (those (map (\<lambda>r.
                        case (readAt bufX stX (broadcastIndex (shape stX) (idx @ [r])),
                              readAt bufY stY (broadcastIndex (shape stY) (idx @ [r]))) of
                          (Some x, Some y) \<Rightarrow> Some (x * y)
                        | _ \<Rightarrow> None)
                      [0..last full - 1])))
                (indices (butlast full)))))"

definition toRatParams :: "int ConvParams \<Rightarrow> rat ConvParams" where
  "toRatParams p =
     \<lparr>strides = map of_int (strides p),
      padding = map (\<lambda>(b, e). (of_int b, of_int e)) (padding p),
      lhsDilation = map of_int (lhsDilation p),
      rhsDilation = map of_int (rhsDilation p)\<rparr>"

definition convWithParams :: "int ConvParams \<Rightarrow> Array \<Rightarrow> Array \<Rightarrow> conv_failure + Array" where
  "convWithParams params lhs rhs =
     (case checkConvShape (map of_int (shape (view lhs))) (map of_int (shape (view rhs)))
             (toRatParams params) of
        Inl e \<Rightarrow> Inl (ShapeError e)
      | Inr outShape \<Rightarrow>
     (case prepareConv (view lhs) (view rhs) params of
        Inl e \<Rightarrow> Inl (ViewError e)
      | Inr (stX, stY) \<Rightarrow>
     (case multiplyReduce (buffer lhs) stX (buffer rhs) stY of
        None \<Rightarrow> Inl ExecutionError
      | Some (shp, vs) \<Rightarrow> Inr \<lparr>buffer = vs, view = fromShape shp\<rparr>)))"

definition defaultParams :: "nat \<Rightarrow> int ConvParams" where
  "defaultParams n =
     \<lparr>strides = rep n 1, padding = rep n (0, 0), lhsDilation = rep n 1, rhsDilation = rep n 1\<rparr>"

definition conv :: "Array \<Rightarrow> Array \<Rightarrow> conv_failure + Array" where
  "conv lhs rhs = convWithParams (defaultParams (length (shape (view lhs)) - 2)) lhs rhs"

text \<open>\<open>convGeneralDilated\<close> (lax.ts, lines 9-12).\<close>

definition convGeneralDilated :: "Array \<Rightarrow> Array \<Rightarrow> conv_failure + Array" where
  "convGeneralDilated lhs rhs = conv lhs rhs"

text \<open>The sliding dot product of a sequence with a kernel, computed directly.\<close>

definition slidingDot :: "rat list \<Rightarrow> rat list \<Rightarrow> rat list" where
  "slidingDot xs ks =
     map (\<lambda>p. sum_list (map2 (*) (take (length ks) (drop p xs)) ks))
       [0..<length xs + 1 - length ks]"

section \<open>Backend buffers\<close>

text \<open>
  Modelled from the spec: the backend (\<open>malloc\<close>, \<open>incRef\<close>, \<open>decRef\<close>, \<open>read\<close>,
  \<open>execute\<close>) is used by cpu.test.ts and is not among the sources. By sections 3, 4.5 and
  9 a buffer handle is an index into a table of the backend; a handle starts with
  reference count 1, every operation on it is a checked lookup in the table, \<open>decRef\<close>
  releases the memory when the count reaches zero, after which the handle is invalid for
  all further operations, and the use of an invalid handle is a lifetime error. The
  evaluation of an expression over the contents of the input buffers is a parameter of
  \<open>execute\<close>.
\<close>

record 'b Slot =
  refcount :: nat
  contents :: "'b list"

type_synonym 'b Backend = "'b Slot list"

datatype backend_error = LifetimeError | SizeMismatch | ExecutionFailed

definition live :: "'b Backend \<Rightarrow> nat \<Rightarrow> bool" where
  "live be h \<longleftrightarrow> h < length be \<and> 0 < refcount (be ! h)"

definition malloc ::
  "('b::zero) Backend \<Rightarrow> nat \<Rightarrow> 'b list option \<Rightarrow> backend_error + nat \<times> 'b Backend"
where
  "malloc be byteSize initial =
     (case initial of
        None \<Rightarrow> Inr (length be, be @ [\<lparr>refcount = 1, contents = replicate byteSize 0\<rparr>])
      | Some bytes \<Rightarrow>
          if length bytes \<noteq> byteSize then Inl SizeMismatch
          else Inr (length be, be @ [\<lparr>refcount = 1, contents = bytes\<rparr>]))"

definition incRef :: "'b Backend \<Rightarrow> nat \<Rightarrow> backend_error + 'b Backend" where
  "incRef be h =
     (if live be h then Inr (be[h := (be ! h)\<lparr>refcount := refcount (be ! h) + 1\<rparr>])
      else Inl LifetimeError)"

definition decRef :: "'b Backend \<Rightarrow> nat \<Rightarrow> backend_error + 'b Backend" where
  "decRef be h =
     (if live be h
      then Inr (be[h := (if refcount (be ! h) = 1 then \<lparr>refcount = 0, contents = []\<rparr>
                         else (be ! h)\<lparr>refcount := refcount (be ! h) - 1\<rparr>)])
      else Inl LifetimeError)"

definition read :: "'b Backend \<Rightarrow> nat \<Rightarrow> backend_error + 'b list" where
  "read be h = (if live be h then Inr (contents (be ! h)) else Inl LifetimeError)"

definition execute ::
  "'b Backend \<Rightarrow> ('b list list \<Rightarrow> 'b list list option) \<Rightarrow> nat list \<Rightarrow> nat list
     \<Rightarrow> backend_error + 'b Backend"
where
  "execute be evaluate inputs outputs =
     (if \<not> list_all (live be) (inputs @ outputs) then Inl LifetimeError
      else case evaluate (map (\<lambda>h. contents (be ! h)) inputs) of
        None \<Rightarrow> Inl ExecutionFailed
      | Some results \<Rightarrow>
          if \<not> list_all2 (\<lambda>h r. length r = length (contents (be ! h))) outputs results
          then Inl ExecutionFailed
          else Inr (fold (\<lambda>(h, r) b. b[h := (b ! h)\<lparr>contents := r\<rparr>]) (zip outputs results) be))"

text \<open>A call of the backend, and the state it leaves (unchanged when the call fails).\<close>

datatype 'b backend_call =
    Malloc nat "'b list option"
  | IncRef nat
  | DecRef nat
  | Read nat
  | Execute "'b list list \<Rightarrow> 'b list list option" "nat list" "nat list"

fun after :: "('b::zero) Backend \<Rightarrow> 'b backend_call \<Rightarrow> 'b Backend" where
  "after be (Malloc byteSize initial) =
     (case malloc be byteSize initial of Inl e \<Rightarrow> be | Inr (h, be') \<Rightarrow> be')"
| "after be (IncRef h) = (case incRef be h of Inl e \<Rightarrow> be | Inr be' \<Rightarrow> be')"
| "after be (DecRef h) = (case decRef be h of Inl e \<Rightarrow> be | Inr be' \<Rightarrow> be')"
| "after be (Read h) = be"
| "after be (Execute evaluate inputs outputs) =
     (case execute be evaluate inputs outputs of Inl e \<Rightarrow> be | Inr be' \<Rightarrow> be')"

definition afterAll :: "('b::zero) Backend \<Rightarrow> 'b backend_call list \<Rightarrow> 'b Backend" where
  "afterAll be calls = foldl after be calls"

section \<open>Auxiliary notions of the proofs\<close>

text \<open>A handle whose slot is in the table with reference count zero.\<close>

definition released :: "'b Backend \<Rightarrow> nat \<Rightarrow> bool" where
  "released be h \<longleftrightarrow> h < length be \<and> refcount (be ! h) = 0"

text \<open>
  The quantities of one axis in \<open>pool\<close>, for the input extent \<open>i\<close>, dilation \<open>d\<close>,
  kernel size \<open>k\<close> and stride \<open>s\<close>: the output extent \<open>oF\<close>, the duplication factor
  \<open>fF\<close>, the number of repeats \<open>rF\<close>; the lists of them over all axes; and the
  condition \<open>axisOk\<close> under which every view operation of \<open>pool\<close> accepts its
  argument: the extent and the stride are positive, the kernel size and the output extent
  are not negative, and the \<open>o * s\<close> positions of the strided window fit into a row of
  \<open>i * f + d\<close> positions.
\<close>

definition oF :: "int \<Rightarrow> int \<Rightarrow> int \<Rightarrow> int \<Rightarrow> int" where
  "oF i d k s = \<lceil>rat_of_int (i - d * (k - 1)) / rat_of_int s\<rceil>"

definition fF :: "int \<Rightarrow> int \<Rightarrow> int \<Rightarrow> int \<Rightarrow> int" where
  "fF i d k s = 1 + (if oF i d k s * s > i - d * (k - 1) then 1 else 0)"

definition rF :: "int \<Rightarrow> int \<Rightarrow> int \<Rightarrow> int \<Rightarrow> int" where
  "rF i d k s = \<lceil>rat_of_int (k * (i * fF i d k s + d)) / rat_of_int i\<rceil>"

definition axisOk :: "int \<Rightarrow> int \<Rightarrow> int \<Rightarrow> int \<Rightarrow> bool" where
  "axisOk i d k s \<longleftrightarrow>
     1 \<le> i \<and> 1 \<le> s \<and> 0 \<le> k \<and> 0 \<le> oF i d k s
   \<and> oF i d k s * s \<le> i * fF i d k s + d"

definition o_list :: "int list \<Rightarrow> int list \<Rightarrow> int list \<Rightarrow> int list \<Rightarrow> int list" where
  "o_list i_s d_s ks s_s = map (\<lambda>(i, d, k, s). oF i d k s) (zipn4 i_s d_s ks s_s)"

definition f_list :: "int list \<Rightarrow> int list \<Rightarrow> int list \<Rightarrow> int list \<Rightarrow> int list" where
  "f_list i_s d_s ks s_s = map (\<lambda>(i, d, k, s). fF i d k s) (zipn4 i_s d_s ks s_s)"

definition r_list :: "int list \<Rightarrow> int list \<Rightarrow> int list \<Rightarrow> int list \<Rightarrow> int list" where
  "r_list i_s d_s ks s_s = map (\<lambda>(i, d, k, s). rF i d k s) (zipn4 i_s d_s ks s_s)"

definition axesOk :: "int list \<Rightarrow> int list \<Rightarrow> int list \<Rightarrow> int list \<Rightarrow> bool" where
  "axesOk i_s d_s ks s_s \<longleftrightarrow> list_all (\<lambda>(i, d, k, s). axisOk i d k s) (zipn4 i_s d_s ks s_s)"

abbreviation inRange :: "int \<Rightarrow> Pair \<Rightarrow> bool" where
  "inRange \<equiv> (\<lambda>n (b, e). 0 \<le> b \<and> b \<le> e \<and> e \<le> n)"

section \<open>Properties of checkConvShape\<close>

lemma checkSpatial_Inr:
  "checkSpatial lhsShape rhsShape p is out0 = Inr out \<longleftrightarrow>
     (\<forall>i \<in> set is. spatialOk lhsShape rhsShape p i)
   \<and> out = out0 @ map (spatialOut lhsShape rhsShape p) is"
proof (induction "is" arbitrary: out0)
  case Nil
  show ?case by auto
next
  case (Cons i rest)
  show ?case
  proof (cases "spatialOk lhsShape rhsShape p i")
    case True
    then have "checkSpatial lhsShape rhsShape p (i # rest) out0 =
        checkSpatial lhsShape rhsShape p rest (out0 @ [spatialOut lhsShape rhsShape p i])"
      by (simp add: spatialOk_def spatialOut_def not_less not_le)
    with True show ?thesis by (simp add: Cons.IH)
  next
    case False
    then have "\<exists>e. checkSpatial lhsShape rhsShape p (i # rest) out0 = Inl e"
      by (auto simp: spatialOk_def not_less not_le)
    with False show ?thesis by auto
  qed
qed

lemma isInteger_of_int [simp]: "isInteger (of_int z)"
  by (simp add: isInteger_def)

lemma isInteger_numeral [simp]: "isInteger (numeral w)" "isInteger 1" "isInteger 0"
  by (simp_all add: isInteger_def)

lemma ceiling_rat_numeral [simp]:
  "\<lceil>numeral a / numeral b :: rat\<rceil> = - (- numeral a div numeral b)"
  using floor_divide_of_int_eq [where ?'a = rat, of "- numeral a" "numeral b"]
  by (simp add: ceiling_def)

lemma checkConvShape_Inr:
  "checkConvShape lhsShape rhsShape p = Inr out \<longleftrightarrow>
     length lhsShape = length rhsShape \<and> 2 \<le> length lhsShape
   \<and> length (strides p) = length lhsShape - 2
   \<and> length (padding p) = length lhsShape - 2
   \<and> length (lhsDilation p) = length lhsShape - 2
   \<and> length (rhsDilation p) = length lhsShape - 2
   \<and> lhsShape ! 1 = rhsShape ! 1
   \<and> (\<forall>i < length lhsShape - 2. spatialOk lhsShape rhsShape p i)
   \<and> out = lhsShape ! 0 # rhsShape ! 0
             # map (spatialOut lhsShape rhsShape p) [0..<length lhsShape - 2]"
proof (cases "length lhsShape = length rhsShape \<and> 2 \<le> length lhsShape
   \<and> length (strides p) = length lhsShape - 2
   \<and> length (padding p) = length lhsShape - 2
   \<and> length (lhsDilation p) = length lhsShape - 2
   \<and> length (rhsDilation p) = length lhsShape - 2
   \<and> lhsShape ! 1 = rhsShape ! 1")
  case True
  then have n: "nat (int (length lhsShape) - 2) = length lhsShape - 2"
    by simp
  from True have "checkConvShape lhsShape rhsShape p =
      checkSpatial lhsShape rhsShape p [0..<length lhsShape - 2] [lhsShape ! 0, rhsShape ! 0]"
    unfolding checkConvShape_def Let_def n by auto
  with True show ?thesis
    by (auto simp: checkSpatial_Inr)
next
  case False
  then have "\<exists>e. checkConvShape lhsShape rhsShape p = Inl e"
    unfolding checkConvShape_def Let_def by (auto split: if_splits)
  with False show ?thesis by auto
qed

lemma spatialOut_ge_1:
  assumes "spatialOk lhsShape rhsShape p i"
  shows "1 \<le> spatialOut lhsShape rhsShape p i"
proof -
  let ?a = "inSize lhsShape p i - kernelSize rhsShape p i + 1"
  from assms have s: "0 < strides p ! i" and a: "1 \<le> ?a"
    by (simp_all add: spatialOk_def)
  then have "0 < ?a / strides p ! i" by simp
  then have "0 < \<lceil>?a / strides p ! i\<rceil>" by (simp add: ceiling_less_iff)
  then have "1 \<le> \<lceil>?a / strides p ! i\<rceil>" by linarith
  then have "(1::rat) \<le> of_int \<lceil>?a / strides p ! i\<rceil>"
    using of_int_le_iff [where ?'a = rat, of 1] by simp
  then show ?thesis by (simp add: spatialOut_def ceil_def)
qed

text \<open>
  C2. Whenever \<open>checkConvShape\<close> does not throw, the shape it returns is the batch size
  \<open>lhsShape[0]\<close>, the number of output channels \<open>rhsShape[0]\<close>, and for every spatial
  dimension \<open>i\<close> the extent \<open>ceil((inSize - kernelSize + 1) / strides[i])\<close>, where
  \<open>inSize = max((lhsShape[i+2]-1)*lhsDilation[i]+1, 0) + padding[i][0] + padding[i][1]\<close>
  and \<open>kernelSize = (rhsShape[i+2]-1)*rhsDilation[i]+1\<close>.
\<close>

theorem checkConvShape_output_shape:
  assumes "checkConvShape lhsShape rhsShape p = Inr out"
  shows "out = lhsShape ! 0 # rhsShape ! 0 #
           map (\<lambda>i. of_int \<lceil>(max ((lhsShape ! (i + 2) - 1) * lhsDilation p ! i + 1) 0
                                 + fst (padding p ! i) + snd (padding p ! i)
                               - ((rhsShape ! (i + 2) - 1) * rhsDilation p ! i + 1) + 1)
                              / strides p ! i\<rceil>)
             [0..<length lhsShape - 2]"
  using assms
  by (simp add: checkConvShape_Inr spatialOut_def ceil_def inSize_def kernelSize_def)

theorem checkConvShape_output_shape_witness:
  "checkConvShape [1, 1, 10] [1, 1, 3]
     \<lparr>strides = [3], padding = [(1, 1)], lhsDilation = [1], rhsDilation = [2]\<rparr>
     = Inr [1, 1, 3]
   \<and> [1, 1, 3 :: rat] = [1, 1, 10] ! 0 # [1, 1, 3] ! 0 #
       map (\<lambda>i. of_int \<lceil>(max (([1, 1, 10 :: rat] ! (i + 2) - 1) * [1] ! i + 1) 0
                             + fst ([(1, 1)] ! i) + snd ([(1, 1)] ! i)
                           - (([1, 1, 3] ! (i + 2) - 1) * [2] ! i + 1) + 1)
                          / [3] ! i\<rceil>)
         [0..<length [1, 1, 10 :: rat] - 2]"
proof -
  have h: "checkConvShape [1, 1, 10] [1, 1, 3]
     \<lparr>strides = [3], padding = [(1, 1)], lhsDilation = [1], rhsDilation = [2]\<rparr>
     = Inr [1, 1, 3]"
    by (simp add: checkConvShape_def kernelSize_def inSize_def ceil_def)
  show ?thesis
    using h checkConvShape_output_shape [OF h] by simp
qed

text \<open>
  C10. Whenever \<open>checkConvShape\<close> returns normally, every spatial extent of the returned
  shape (the entries after the batch size and the output channels) is at least 1.
\<close>

theorem checkConvShape_spatial_extent_positive:
  assumes "checkConvShape lhsShape rhsShape p = Inr out"
  shows "length out = length lhsShape \<and> (\<forall>j. 2 \<le> j \<and> j < length out \<longrightarrow> 1 \<le> out ! j)"
proof -
  let ?n = "length lhsShape - 2"
  from assms have len: "2 \<le> length lhsShape"
    and ok: "\<forall>i < ?n. spatialOk lhsShape rhsShape p i"
    and out: "out = lhsShape ! 0 # rhsShape ! 0 # map (spatialOut lhsShape rhsShape p) [0..<?n]"
    by (simp_all add: checkConvShape_Inr)
  from out len have l: "length out = length lhsShape" by simp
  have "1 \<le> out ! j" if "2 \<le> j" "j < length out" for j
  proof -
    from that l have j: "j - 2 < ?n" by linarith
    from that obtain m where m: "j = Suc (Suc m)"
      by (metis Suc_le_D numeral_2_eq_2 Suc_le_mono)
    with j have m': "m < ?n" by simp
    from out m m' have "out ! j = spatialOut lhsShape rhsShape p m" by simp
    with ok m' show ?thesis by (simp add: spatialOut_ge_1)
  qed
  with l show ?thesis by blast
qed

theorem checkConvShape_spatial_extent_positive_witness:
  "checkConvShape [1, 1, 2] [1, 1, 2]
     \<lparr>strides = [5], padding = [(0, 0)], lhsDilation = [1], rhsDilation = [1]\<rparr>
     = Inr [1, 1, 1]
   \<and> length [1, 1, 1 :: rat] = length [1, 1, 2 :: rat]
   \<and> (1 :: rat) \<le> [1, 1, 1] ! 2"
proof -
  have h: "checkConvShape [1, 1, 2] [1, 1, 2]
     \<lparr>strides = [5], padding = [(0, 0)], lhsDilation = [1], rhsDilation = [1]\<rparr>
     = Inr [1, 1, 1]"
    by (simp add: checkConvShape_def kernelSize_def inSize_def ceil_def ceiling_eq_iff)
  from checkConvShape_spatial_extent_positive [OF h]
  have "length [1, 1, 1 :: rat] = length [1, 1, 2 :: rat]"
    and "\<forall>j. 2 \<le> j \<and> j < length [1, 1, 1 :: rat] \<longrightarrow> 1 \<le> [1, 1, 1 :: rat] ! j"
    by blast+
  with h show ?thesis by simp
qed

text \<open>
  C3, as the specification states it, fails: a kernel whose spatial extent is zero is
  rejected (\<open>conv() kernel size must be positive\<close>, line 82), though none of the
  listed conditions holds; its dilated extent 0 does not exceed the input extent 5.
\<close>

theorem checkConvShape_throws_counterexample:
  "checkConvShape [1, 1, 5] [1, 1, 0]
     \<lparr>strides = [1], padding = [(0, 0)], lhsDilation = [1], rhsDilation = [1]\<rparr>
     = Inl KernelSizeNotPositive
   \<and> \<not> specifiedFailure [1, 1, 5] [1, 1, 0]
     \<lparr>strides = [1], padding = [(0, 0)], lhsDilation = [1], rhsDilation = [1]\<rparr>"
  by (simp add: checkConvShape_def specifiedFailure_def kernelSize_def inSize_def)

text \<open>
  C3, amended. \<open>checkConvShape\<close> throws exactly when one of the conditions the
  specification lists holds (which include a rank below 2, where the number of spatial
  dimensions is negative and no list has that length), or some spatial extent of the
  kernel is not positive. In every other case it returns a shape.
\<close>

theorem checkConvShape_throws_iff:
  "(\<exists>e. checkConvShape lhsShape rhsShape p = Inl e) \<longleftrightarrow>
     specifiedFailure lhsShape rhsShape p
   \<or> list_ex (\<lambda>i. rhsShape ! (i + 2) \<le> 0) [0..<length lhsShape - 2]"
proof -
  have "(\<exists>e. checkConvShape lhsShape rhsShape p = Inl e) \<longleftrightarrow>
        \<not> (\<exists>out. checkConvShape lhsShape rhsShape p = Inr out)"
    by (cases "checkConvShape lhsShape rhsShape p") auto
  also have "\<dots> \<longleftrightarrow> specifiedFailure lhsShape rhsShape p
      \<or> list_ex (\<lambda>i. rhsShape ! (i + 2) \<le> 0) [0..<length lhsShape - 2]"
    unfolding checkConvShape_Inr specifiedFailure_def spatialOk_def list_ex_iff
    by (auto simp: not_less not_le)
  finally show ?thesis .
qed

theorem checkConvShape_throws_iff_witness:
  "(\<exists>e. checkConvShape [1, 1, 2] [1, 1, 3]
     \<lparr>strides = [1], padding = [(0, 0)], lhsDilation = [1], rhsDilation = [1]\<rparr> = Inl e)
   \<and> specifiedFailure [1, 1, 2] [1, 1, 3]
     \<lparr>strides = [1], padding = [(0, 0)], lhsDilation = [1], rhsDilation = [1]\<rparr>"
proof -
  have r: "specifiedFailure [1, 1, 2] [1, 1, 3]
     \<lparr>strides = [1], padding = [(0, 0)], lhsDilation = [1], rhsDilation = [1]\<rparr>"
    by (simp add: specifiedFailure_def kernelSize_def inSize_def)
  then show ?thesis
    using checkConvShape_throws_iff [of "[1, 1, 2]" "[1, 1, 3]"
      "\<lparr>strides = [1], padding = [(0, 0)], lhsDilation = [1], rhsDilation = [1]\<rparr>"]
    by blast
qed

section \<open>Properties of the pooling factor\<close>

text \<open>
  C5. In \<open>pool\<close>, every entry of the list \<open>f_\<close> of duplication factors is 1 or 2, and
  it is 2 exactly when \<open>o * s > i - d * (k - 1)\<close> for the output extent \<open>o\<close>, stride
  \<open>s\<close>, input extent \<open>i\<close>, dilation \<open>d\<close> and kernel size \<open>k\<close> of that axis;
  otherwise it is 1.
\<close>

theorem pool_f_one_or_two:
  assumes "j < length (pool_f o_s s_s i_s d_s ks)"
  shows "pool_f o_s s_s i_s d_s ks ! j \<in> {1, 2}
       \<and> (pool_f o_s s_s i_s d_s ks ! j = 2
            \<longleftrightarrow> o_s ! j * s_s ! j > i_s ! j - d_s ! j * (ks ! j - 1))
       \<and> (pool_f o_s s_s i_s d_s ks ! j = 1
            \<longleftrightarrow> \<not> o_s ! j * s_s ! j > i_s ! j - d_s ! j * (ks ! j - 1))"
  using assms by (simp add: pool_f_def zipn5_def)

theorem pool_f_one_or_two_witness:
  "(1::nat) < length (pool_f [3, 2] [1, 2] [5, 5] [1, 1] [3, 3])
   \<and> pool_f [3, 2] [1, 2] [5, 5] [1, 1] [3, 3] ! 1 \<in> {1, 2}
   \<and> pool_f [3, 2] [1, 2] [5, 5] [1, 1] [3, 3] ! 1 = 2
   \<and> [3, 2] ! 1 * [1, 2] ! 1 > [5, 5] ! 1 - [1, 1] ! 1 * ([3, 3 :: int] ! 1 - 1)
   \<and> pool_f [3, 2] [1, 2] [5, 5] [1, 1] [3, 3] ! 0 = 1"
proof -
  have l: "(1::nat) < length (pool_f [3, 2] [1, 2] [5, 5] [1, 1] [3, 3])"
    by (simp add: pool_f_def zipn5_def)
  have g: "[3, 2] ! 1 * [1, 2] ! 1 > [5, 5] ! 1 - [1, 1] ! 1 * ([3, 3 :: int] ! 1 - 1)"
    by simp
  have z: "pool_f [3, 2] [1, 2] [5, 5] [1, 1] [3, 3] ! 0 = 1"
    by (simp add: pool_f_def zipn5_def)
  from pool_f_one_or_two [OF l] g
  have "pool_f [3, 2] [1, 2] [5, 5] [1, 1] [3, 3] ! 1 \<in> {1, 2}"
    and "pool_f [3, 2] [1, 2] [5, 5] [1, 1] [3, 3] ! 1 = 2"
    by blast+
  with l g z show ?thesis by blast
qed

section \<open>The one-dimensional convolution of the test\<close>

text \<open>
  C1. For the input \<open>[[[1,2,3,4,5]]]\<close> and the kernel \<open>[[[2,0.5,-1]]]\<close> under the default
  parameters, \<open>prepareConv\<close> returns two views of shapes \<open>[1,1,3,3]\<close> and \<open>[1,1,3]\<close>
  whose broadcast product, summed over the final axis, is \<open>[[[0, 1.5, 3]]]\<close>; this is
  what \<open>convGeneralDilated\<close> returns, and it is the sliding dot product computed
  directly. All the numbers involved are dyadic, so the arithmetic is exact.
\<close>

theorem conv_1d_example:
  "(case prepareConv (fromShape [1, 1, 5]) (fromShape [1, 1, 3]) (defaultParams 1) of
      Inl e \<Rightarrow> False
    | Inr (stX, stY) \<Rightarrow>
        shape stX = [1, 1, 3, 3] \<and> shape stY = [1, 1, 3]
      \<and> multiplyReduce [1, 2, 3, 4, 5] stX [2, 1 / 2, - 1] stY
          = Some ([1, 1, 3], [0, 3 / 2, 3]))
   \<and> bindE (convGeneralDilated
        (array (Nest [Nest [Nest [Leaf 1, Leaf 2, Leaf 3, Leaf 4, Leaf 5]]]))
        (array (Nest [Nest [Nest [Leaf 2, Leaf (1 / 2), Leaf (- 1)]]]))) js
       = Inr (Nest [Nest [Nest [Leaf 0, Leaf (3 / 2), Leaf 3]]])
   \<and> slidingDot [1, 2, 3, 4, 5] [2, 1 / 2, - 1] = [0, 3 / 2, 3]"
  by code_simp

section \<open>Buffer lifetime\<close>

lemma fold_contents_keeps:
  "length (fold (\<lambda>(h, r) b. b[h := (b ! h)\<lparr>contents := r\<rparr>]) hrs be) = length be
   \<and> (\<forall>h < length be.
        refcount (fold (\<lambda>(h, r) b. b[h := (b ! h)\<lparr>contents := r\<rparr>]) hrs be ! h)
          = refcount (be ! h))"
proof (induction hrs arbitrary: be)
  case Nil
  show ?case by simp
next
  case (Cons hr hrs)
  obtain h' r where hr: "hr = (h', r)" by (cases hr)
  let ?be = "be[h' := (be ! h')\<lparr>contents := r\<rparr>]"
  have "length ?be = length be" by simp
  moreover have "refcount (?be ! h) = refcount (be ! h)" if "h < length be" for h
    using that by (cases "h' = h") simp_all
  ultimately show ?case using Cons.IH [of ?be] by (simp add: hr)
qed

lemma released_not_live: "released be h \<Longrightarrow> \<not> live be h"
  by (simp add: released_def live_def)

lemma released_after: "released be h \<Longrightarrow> released (after be c) h"
proof (cases c)
  case (Malloc n initial)
  assume "released be h"
  then show ?thesis
    by (auto simp: Malloc malloc_def released_def nth_append split: option.splits)
next
  case (IncRef h')
  assume r: "released be h"
  then show ?thesis
    by (cases "h' = h") (auto simp: IncRef incRef_def released_def live_def)
next
  case (DecRef h')
  assume r: "released be h"
  then show ?thesis
    by (cases "h' = h") (auto simp: DecRef decRef_def released_def live_def)
next
  case (Read h')
  assume "released be h"
  then show ?thesis by (simp add: Read)
next
  case (Execute evaluate inputs outputs)
  assume r: "released be h"
  show ?thesis
  proof (cases "execute be evaluate inputs outputs")
    case (Inl e)
    with r show ?thesis by (simp add: Execute)
  next
    case (Inr be')
    then obtain results where
      "be' = fold (\<lambda>(h, r) b. b[h := (b ! h)\<lparr>contents := r\<rparr>]) (zip outputs results) be"
      by (auto simp: execute_def split: if_splits option.splits)
    with r fold_contents_keeps [of "zip outputs results" be] have "released be' h"
      by (simp add: released_def)
    with Inr show ?thesis by (simp add: Execute)
  qed
qed

lemma released_afterAll: "released be h \<Longrightarrow> released (afterAll be calls) h"
  unfolding afterAll_def
  by (induction calls arbitrary: be) (simp_all add: released_after)

text \<open>
  C8. Once \<open>decRef\<close> has brought the reference count of a handle to zero, then after any
  further sequence of backend calls (allocations, failed attempts and repeated attempts
  included) a \<open>read\<close> of the handle fails with a lifetime error, and so does every
  \<open>execute\<close> that has the handle among its inputs or outputs.
\<close>

theorem use_after_release_fails:
  assumes "decRef be h = Inr be1" and "refcount (be1 ! h) = 0"
  shows "read (afterAll be1 calls) h = Inl LifetimeError
       \<and> (h \<in> set inputs \<union> set outputs \<longrightarrow>
            execute (afterAll be1 calls) evaluate inputs outputs = Inl LifetimeError)"
proof -
  from assms(1) have "h < length be1"
    by (auto simp: decRef_def live_def split: if_splits)
  with assms(2) have "released be1 h" by (simp add: released_def)
  then have "released (afterAll be1 calls) h" by (rule released_afterAll)
  then have dead: "\<not> live (afterAll be1 calls) h" by (rule released_not_live)
  then have "read (afterAll be1 calls) h = Inl LifetimeError"
    by (simp add: read_def)
  moreover have "execute (afterAll be1 calls) evaluate inputs outputs = Inl LifetimeError"
    if "h \<in> set inputs \<union> set outputs"
  proof -
    from that dead have "\<not> list_all (live (afterAll be1 calls)) (inputs @ outputs)"
      by (auto simp: list_all_iff)
    then show ?thesis by (simp add: execute_def)
  qed
  ultimately show ?thesis by blast
qed

theorem use_after_release_fails_witness:
  "decRef [\<lparr>refcount = 1, contents = [1, 2, 3 :: nat]\<rparr>] 0
     = Inr [\<lparr>refcount = 0, contents = []\<rparr>]
   \<and> refcount ([\<lparr>refcount = 0, contents = [] :: nat list\<rparr>] ! 0) = 0
   \<and> read (afterAll [\<lparr>refcount = 0, contents = [] :: nat list\<rparr>]
             [Read 0, Malloc 3 None, IncRef 0, DecRef 0]) 0 = Inl LifetimeError
   \<and> execute (afterAll [\<lparr>refcount = 0, contents = [] :: nat list\<rparr>]
             [Read 0, Malloc 3 None, IncRef 0, DecRef 0]) Some [0] [1] = Inl LifetimeError"
proof -
  have d: "decRef [\<lparr>refcount = 1, contents = [1, 2, 3 :: nat]\<rparr>] 0
     = Inr [\<lparr>refcount = 0, contents = []\<rparr>]"
    by (simp add: decRef_def live_def)
  have z: "refcount ([\<lparr>refcount = 0, contents = [] :: nat list\<rparr>] ! 0) = 0"
    by simp
  have m: "(0::nat) \<in> set [0] \<union> set [1]" by simp
  from use_after_release_fails [OF d z, of "[Read 0, Malloc 3 None, IncRef 0, DecRef 0]" "[0]" "[1]" Some] m
  have "read (afterAll [\<lparr>refcount = 0, contents = [] :: nat list\<rparr>]
             [Read 0, Malloc 3 None, IncRef 0, DecRef 0]) 0 = Inl LifetimeError"
    and "execute (afterAll [\<lparr>refcount = 0, contents = [] :: nat list\<rparr>]
             [Read 0, Malloc 3 None, IncRef 0, DecRef 0]) Some [0] [1] = Inl LifetimeError"
    by blast+
  with d z show ?thesis by blast
qed

section \<open>Properties of views\<close>

lemma prodN_simps [simp]: "prodN [] = 1" "prodN (x # xs) = x * prodN xs"
  by (simp_all add: prodN_def)

lemma prodN_append: "prodN (xs @ ys) = prodN xs * prodN ys"
  by (induction xs) simp_all

lemma bindE_Inr [simp]: "bindE (Inr x) f = f x"
  by (simp add: bindE_def)

lemma bindE_Inl [simp]: "bindE (Inl e) f = Inl e"
  by (simp add: bindE_def)

lemma prodN_synthetic: "prodN (concat (map (\<lambda>k. [k, 1]) ks)) = prodN ks"
  by (induction ks) simp_all

lemma nonneg_synthetic:
  "list_all (\<lambda>n. 0 \<le> n) ks \<Longrightarrow> list_all (\<lambda>n. (0::int) \<le> n) (concat (map (\<lambda>k. [k, 1]) ks))"
  by (induction ks) simp_all

lemma length_synthetic:
  "length (concat (map (\<lambda>k. [f k, g k]) ks)) = 2 * length ks"
  by (induction ks) simp_all

lemma pad_synthetic_ok:
  "list_all (\<lambda>s. 1 \<le> s) (dil :: int list) \<Longrightarrow>
   list_all (\<lambda>(b, e). (0::int) \<le> b \<and> 0 \<le> e) (concat (map (\<lambda>s. [(0, 0), (0, s - 1)]) dil))"
  by (induction dil) simp_all

lemma pad_synthetic_shape:
  "length ks = length dil \<Longrightarrow>
   map2 (\<lambda>n (b, e). b + n + e) (concat (map (\<lambda>k. [k, 1]) ks))
        (concat (map (\<lambda>s. [(0, 0), (0, s - 1)]) dil))
     = concat (map2 (\<lambda>k s. [k, s :: int]) ks dil)"
  by (induction ks dil rule: list_induct2) simp_all

lemma prodN_collapse:
  "length ks = length dil \<Longrightarrow>
   prodN (map2 (*) ks dil) = prodN (concat (map2 (\<lambda>k s. [k, s]) ks dil))"
  by (induction ks dil rule: list_induct2) simp_all

lemma nonneg_collapse:
  "length ks = length dil \<Longrightarrow> list_all (\<lambda>n. 0 \<le> n) ks \<Longrightarrow> list_all (\<lambda>s. 1 \<le> s) dil \<Longrightarrow>
   list_all (\<lambda>n. (0::int) \<le> n) (map2 (*) ks dil)"
  by (induction ks dil rule: list_induct2) simp_all

lemma index_map2:
  "length xs = length ys \<Longrightarrow> map (\<lambda>i. f (xs ! i) (ys ! i)) [0..<length xs] = map2 f xs ys"
  by (rule nth_equalityI) simp_all

lemma shrink_dilated_ok:
  "length ks = length dil \<Longrightarrow> list_all (\<lambda>s. 1 \<le> s) dil \<Longrightarrow>
   list_all2 (\<lambda>k s. 0 \<le> (k - 1) * s + 1) ks dil \<Longrightarrow>
   list_all2 (\<lambda>n (b, e). 0 \<le> b \<and> b \<le> e \<and> e \<le> n)
     (map2 (*) ks dil) (map2 (\<lambda>k s. (0, (k - 1) * s + 1)) ks (dil :: int list))"
  by (induction ks dil rule: list_induct2) (simp_all add: algebra_simps)

lemma shrink_dilated_extents:
  "length ks = length dil \<Longrightarrow>
   map (\<lambda>(b, e). e - b) (map2 (\<lambda>k s. (0, (k - 1) * s + 1)) ks dil)
     = map2 (\<lambda>k s. (k - 1) * s + 1) ks (dil :: int list)"
  by (induction ks dil rule: list_induct2) simp_all

lemma reshape_Inr:
  "list_all (\<lambda>n. 0 \<le> n) newShape \<Longrightarrow> prodN newShape = prodN (shape st) \<Longrightarrow>
   \<exists>st'. reshape st newShape = Inr st' \<and> shape st' = newShape"
  by (simp add: reshape_def)

lemma pad_Inr:
  "length arg = length (shape st) \<Longrightarrow> list_all (\<lambda>(b, e). 0 \<le> b \<and> 0 \<le> e) arg \<Longrightarrow>
   \<exists>st'. pad st arg = Inr st' \<and> shape st' = map2 (\<lambda>n (b, e). b + n + e) (shape st) arg"
  by (simp add: pad_def)

lemma shrink_Inr:
  "list_all2 (\<lambda>n (b, e). 0 \<le> b \<and> b \<le> e \<and> e \<le> n) (shape st) arg \<Longrightarrow>
   \<exists>st'. shrink st arg = Inr st' \<and> shape st' = map (\<lambda>(b, e). e - b) arg"
  by (simp add: shrink_def)

lemma repeat_Inr:
  "length reps = length (shape st) \<Longrightarrow> list_all (\<lambda>r. 0 \<le> r) reps \<Longrightarrow>
   \<exists>st'. repeat st reps = Inr st' \<and> shape st' = map2 (*) (shape st) reps"
  by (simp add: repeat_def)

lemma permute_Inr:
  "distinct axes \<Longrightarrow> set axes = set [0..<length (shape st)] \<Longrightarrow>
   \<exists>st'. permute st axes = Inr st' \<and> shape st' = map (\<lambda>a. shape st ! a) axes"
  by (simp add: permute_def)


lemma pad_shrink_ranges_ok:
  "length p = length ns \<Longrightarrow> list_all (\<lambda>(b, e). 0 \<le> b \<and> 0 \<le> e) p \<Longrightarrow> list_all (\<lambda>n. 0 \<le> n) (ns :: int list) \<Longrightarrow>
   list_all2 (\<lambda>n (b, e). 0 \<le> b \<and> b \<le> e \<and> e \<le> n)
     (map2 (\<lambda>n (b, e). b + n + e) ns p) (map2 (\<lambda>(b, e) n. (b, b + n)) p ns)"
  by (induction p ns rule: list_induct2) auto

lemma pad_shrink_extents:
  "length p = length ns \<Longrightarrow>
   map (\<lambda>(b, e). e - b) (map2 (\<lambda>(b, e) n. (b, b + n)) p ns) = (ns :: int list)"
  by (induction p ns rule: list_induct2) auto

lemma pad_shrink_index:
  "length idx = length ns \<Longrightarrow> length ns = length p \<Longrightarrow>
   map2 (\<lambda>i (b, e). i - b) (map2 (\<lambda>i (b, e). i + b) idx (map2 (\<lambda>(b, e) n. (b, b + n)) p ns)) p
     = (idx :: int list)"
  by (induction idx ns p rule: list_induct3) auto


text \<open>
  C7, as stated, fails: \<open>shrink\<close> takes a sub-range of each axis, not the amounts to
  remove, so with the pad amounts \<open>(1, 1)\<close> on an axis of extent 3 the same pair given
  to \<open>shrink\<close> selects the empty range from 1 to 1 of the padded axis of extent 5.
\<close>

theorem shrink_pad_same_argument_counterexample:
  "(case bindE (pad (fromShape [3]) [(1, 1)]) (\<lambda>st. shrink st [(1, 1)]) of
      Inl e \<Rightarrow> False
    | Inr st \<Rightarrow> shape st = [0] \<and> shape st \<noteq> shape (fromShape [3]))"
  by (simp add: pad_def shrink_def fromShape_def)

text \<open>
  C7, amended. For every view \<open>st\<close> (of non-negative extents) and every list \<open>p\<close> of
  non-negative pad amounts, one pair per axis, \<open>pad\<close> succeeds, and the \<open>shrink\<close> of the
  padded view to the ranges \<open>[low, low + extent)\<close> of the original axes succeeds and is
  the identity view: it has the shape of \<open>st\<close> and addresses the same backing offset
  (or out-of-bounds result) as \<open>st\<close> at every logical index.
\<close>

theorem shrink_pad_identity:
  assumes "length p = length (shape st)"
    and "list_all (\<lambda>(b, e). 0 \<le> b \<and> 0 \<le> e) p"
    and "list_all (\<lambda>n. 0 \<le> n) (shape st)"
  shows "\<exists>st1 st2. pad st p = Inr st1
       \<and> shrink st1 (map2 (\<lambda>(b, e) n. (b, b + n)) p (shape st)) = Inr st2
       \<and> shape st2 = shape st
       \<and> (\<forall>idx. inBounds (shape st) idx \<longrightarrow> addr st2 idx = addr st idx)"
proof -
  let ?r = "map2 (\<lambda>(b, e) n. (b, b + n)) p (shape st)"
  let ?st1 = "\<lparr>shape = map2 (\<lambda>n (b, e). b + n + e) (shape st) p,
               addr = (\<lambda>idx.
                  if inBounds (shape st) (map2 (\<lambda>i (b, e). i - b) idx p)
                  then addr st (map2 (\<lambda>i (b, e). i - b) idx p) else None)\<rparr>"
  let ?st2 = "\<lparr>shape = map (\<lambda>(b, e). e - b) ?r,
               addr = (\<lambda>idx. addr ?st1 (map2 (\<lambda>i (b, e). i + b) idx ?r))\<rparr>"
  from assms have p: "pad st p = Inr ?st1" by (simp add: pad_def)
  from assms have s: "shrink ?st1 ?r = Inr ?st2"
    by (simp add: shrink_def pad_shrink_ranges_ok)
  from assms(1) have sh: "shape ?st2 = shape st"
    by (simp only: ShapeTracker.select_convs pad_shrink_extents)
  have "addr ?st2 idx = addr st idx" if "inBounds (shape st) idx" for idx
  proof -
    from that have "length idx = length (shape st)"
      by (auto simp: inBounds_def dest: list_all2_lengthD)
    with assms(1) have "map2 (\<lambda>i (b, e). i - b) (map2 (\<lambda>i (b, e). i + b) idx ?r) p = idx"
      by (simp only: pad_shrink_index)
    with that show ?thesis by simp
  qed
  with p s sh show ?thesis by blast
qed


theorem shrink_pad_identity_witness:
  "length [(1 :: int, 2 :: int)] = length (shape (fromShape [3]))
   \<and> list_all (\<lambda>(b, e). 0 \<le> b \<and> 0 \<le> e) [(1 :: int, 2 :: int)]
   \<and> list_all (\<lambda>n. 0 \<le> n) (shape (fromShape [3]))
   \<and> (\<exists>st1 st2. pad (fromShape [3]) [(1, 2)] = Inr st1
         \<and> shrink st1 [(1, 4)] = Inr st2
         \<and> shape st2 = [3]
         \<and> addr st2 [2] = Some 2)"
proof -
  have h1: "length [(1 :: int, 2 :: int)] = length (shape (fromShape [3]))"
    and h2: "list_all (\<lambda>(b, e). 0 \<le> b \<and> 0 \<le> e) [(1 :: int, 2 :: int)]"
    and h3: "list_all (\<lambda>n. 0 \<le> n) (shape (fromShape [3]))"
    by (simp_all add: fromShape_def)
  from shrink_pad_identity [OF h1 h2 h3] obtain st1 st2
    where p: "pad (fromShape [3]) [(1, 2)] = Inr st1"
      and s: "shrink st1 (map2 (\<lambda>(b, e) n. (b, b + n)) [(1 :: int, 2 :: int)]
                (shape (fromShape [3]))) = Inr st2"
      and sh: "shape st2 = shape (fromShape [3])"
      and ad: "\<forall>idx. inBounds (shape (fromShape [3])) idx \<longrightarrow> addr st2 idx = addr (fromShape [3]) idx"
    by blast
  from s have s': "shrink st1 [(1, 4)] = Inr st2" by (simp add: fromShape_def)
  from sh have sh': "shape st2 = [3]" by (simp add: fromShape_def)
  have "inBounds (shape (fromShape [3])) [2]" by (simp add: fromShape_def inBounds_def)
  with ad have "addr st2 [2] = addr (fromShape [3]) [2]" by blast
  then have "addr st2 [2] = Some 2" by (simp add: fromShape_def inBounds_def)
  with p s' sh' h1 h2 h3 show ?thesis by blast
qed

text \<open>
  C6, as stated, fails on a spatial axis of extent 0 with a dilation above 1: the last
  step would shrink the axis to the extent \<open>(0 - 1) * 2 + 1 = -1\<close>, which is no extent,
  and \<open>shrink\<close> rejects the range.
\<close>

theorem applyDilation_empty_axis_counterexample:
  "applyDilation (fromShape [1, 1, 0]) [2] = Inl InvalidShrink"
  by (simp add: applyDilation_def fromShape_def reshape_def pad_def shrink_def)

text \<open>
  C6, amended. \<open>applyDilation\<close> returns the view itself when every dilation entry is 1.
  Otherwise, on a view of shape \<open>[a, b, k_1, ..., k_n]\<close> with one dilation \<open>s_j \<ge> 1\<close> per
  spatial axis and no negative dilated extent \<open>(k_j - 1) * s_j + 1\<close>, each of its four
  steps succeeds: the reshape that appends an axis of size 1 after every spatial axis, the
  pad of that axis to width \<open>s_j\<close>, the reshape that collapses each pair into one axis of
  size \<open>k_j * s_j\<close>, and the shrink to the extent \<open>(k_j - 1) * s_j + 1\<close>; the two leading
  axes keep their extents.
\<close>

theorem applyDilation_steps:
  "(list_all (\<lambda>s. s = 1) dilation \<longrightarrow> applyDilation st dilation = Inr st)
   \<and> (\<not> list_all (\<lambda>s. s = 1) dilation
        \<and> shape st = a # b # k_s \<and> list_all (\<lambda>n. 0 \<le> n) (shape st)
        \<and> length dilation = length k_s \<and> list_all (\<lambda>s. 1 \<le> s) dilation
        \<and> list_all2 (\<lambda>k s. 0 \<le> (k - 1) * s + 1) k_s dilation
      \<longrightarrow> (\<exists>st1 st2 st3 st4.
            reshape st (a # b # concat (map (\<lambda>k. [k, 1]) k_s)) = Inr st1
          \<and> pad st1 ((0, 0) # (0, 0) # concat (map (\<lambda>s. [(0, 0), (0, s - 1)]) dilation)) = Inr st2
          \<and> shape st2 = a # b # concat (map2 (\<lambda>k s. [k, s]) k_s dilation)
          \<and> reshape st2 (a # b # map2 (*) k_s dilation) = Inr st3
          \<and> shrink st3 ((0, a) # (0, b) # map2 (\<lambda>k s. (0, (k - 1) * s + 1)) k_s dilation) = Inr st4
          \<and> shape st4 = a # b # map2 (\<lambda>k s. (k - 1) * s + 1) k_s dilation
          \<and> applyDilation st dilation = Inr st4))"
proof (intro conjI impI)
  assume "list_all (\<lambda>s. s = 1) dilation"
  then show "applyDilation st dilation = Inr st" by (simp add: applyDilation_def)
next
  assume h: "\<not> list_all (\<lambda>s. s = 1) dilation
        \<and> shape st = a # b # k_s \<and> list_all (\<lambda>n. 0 \<le> n) (shape st)
        \<and> length dilation = length k_s \<and> list_all (\<lambda>s. 1 \<le> s) dilation
        \<and> list_all2 (\<lambda>k s. 0 \<le> (k - 1) * s + 1) k_s dilation"
  then have notone: "\<not> list_all (\<lambda>s. s = 1) dilation"
    and shp: "shape st = a # b # k_s"
    and a: "0 \<le> a" and b: "0 \<le> b" and ks: "list_all (\<lambda>n. 0 \<le> n) k_s"
    and len: "length k_s = length dilation"
    and dil: "list_all (\<lambda>s. 1 \<le> s) dilation"
    and ext: "list_all2 (\<lambda>k s. 0 \<le> (k - 1) * s + 1) k_s dilation"
    by auto
  let ?t1 = "a # b # concat (map (\<lambda>k. [k, 1]) k_s)"
  let ?p = "(0, 0) # (0, 0) # concat (map (\<lambda>s. [(0, 0), (0, s - 1)]) dilation) :: Pair list"
  let ?t3 = "a # b # map2 (*) k_s dilation"
  let ?r = "(0, a) # (0, b) # map2 (\<lambda>k s. (0, (k - 1) * s + 1)) k_s dilation :: Pair list"
  have "list_all (\<lambda>n. 0 \<le> n) ?t1" "prodN ?t1 = prodN (shape st)"
    using shp a b ks by (simp_all add: prodN_synthetic nonneg_synthetic)
  from reshape_Inr [OF this] obtain st1
    where st1: "reshape st ?t1 = Inr st1" and s1: "shape st1 = ?t1"
    by blast
  have "length ?p = length (shape st1)" "list_all (\<lambda>(b, e). 0 \<le> b \<and> 0 \<le> e) ?p"
    using s1 len dil by (simp_all add: length_synthetic pad_synthetic_ok)
  from pad_Inr [OF this] obtain st2
    where st2: "pad st1 ?p = Inr st2"
      and s2': "shape st2 = map2 (\<lambda>n (b, e). b + n + e) (shape st1) ?p"
    by blast
  from s2' len have s2: "shape st2 = a # b # concat (map2 (\<lambda>k s. [k, s]) k_s dilation)"
    by (simp add: s1 pad_synthetic_shape)
  have "list_all (\<lambda>n. 0 \<le> n) ?t3" "prodN ?t3 = prodN (shape st2)"
    using s2 len a b ks dil by (simp_all add: prodN_collapse nonneg_collapse)
  from reshape_Inr [OF this] obtain st3
    where st3: "reshape st2 ?t3 = Inr st3" and s3: "shape st3 = ?t3"
    by blast
  have "list_all2 (\<lambda>n (b, e). 0 \<le> b \<and> b \<le> e \<and> e \<le> n) (shape st3) ?r"
    using s3 len a b dil ext by (simp add: shrink_dilated_ok)
  from shrink_Inr [OF this] obtain st4
    where st4: "shrink st3 ?r = Inr st4" and s4': "shape st4 = map (\<lambda>(b, e). e - b) ?r"
    by blast
  from s4' len have s4: "shape st4 = a # b # map2 (\<lambda>k s. (k - 1) * s + 1) k_s dilation"
    by (simp only: list.map prod.case shrink_dilated_extents) simp
  have i3: "map (\<lambda>i. k_s ! i * dilation ! i) [0..<length dilation] = map2 (*) k_s dilation"
    using index_map2 [OF len, of "(*)"] len by simp
  have i4: "map (\<lambda>i. (0, (k_s ! i - 1) * dilation ! i + 1)) [0..<length dilation]
      = map2 (\<lambda>k s. (0, (k - 1) * s + 1)) k_s dilation"
    using index_map2 [OF len, of "\<lambda>k s. (0, (k - 1) * s + 1)"] len by simp
  from notone shp len st1 st2 st3 st4 have "applyDilation st dilation = Inr st4"
    by (simp add: applyDilation_def i3 i4)
  with st1 st2 s2 st3 st4 s4
  show "\<exists>st1 st2 st3 st4.
            reshape st (a # b # concat (map (\<lambda>k. [k, 1]) k_s)) = Inr st1
          \<and> pad st1 ((0, 0) # (0, 0) # concat (map (\<lambda>s. [(0, 0), (0, s - 1)]) dilation)) = Inr st2
          \<and> shape st2 = a # b # concat (map2 (\<lambda>k s. [k, s]) k_s dilation)
          \<and> reshape st2 (a # b # map2 (*) k_s dilation) = Inr st3
          \<and> shrink st3 ((0, a) # (0, b) # map2 (\<lambda>k s. (0, (k - 1) * s + 1)) k_s dilation) = Inr st4
          \<and> shape st4 = a # b # map2 (\<lambda>k s. (k - 1) * s + 1) k_s dilation
          \<and> applyDilation st dilation = Inr st4"
    by blast
qed


theorem applyDilation_steps_witness:
  "applyDilation (fromShape [1, 1, 3]) [1] = Inr (fromShape [1, 1, 3])
   \<and> (\<exists>st4. applyDilation (fromShape [1, 1, 3]) [2] = Inr st4
         \<and> shape st4 = [1, 1, 5]
         \<and> map (\<lambda>i. addr st4 [0, 0, i]) [0, 1, 2, 3, 4] = [Some 0, None, Some 1, None, Some 2])"
proof -
  have one: "applyDilation (fromShape [1, 1, 3]) [1] = Inr (fromShape [1, 1, 3])"
    using applyDilation_steps [where dilation = "[1]" and st = "fromShape [1, 1, 3]"]
    by simp
  have "\<not> list_all (\<lambda>s. s = 1) [2 :: int]
        \<and> shape (fromShape [1, 1, 3]) = 1 # 1 # [3] \<and> list_all (\<lambda>n. 0 \<le> n) (shape (fromShape [1, 1, 3]))
        \<and> length [2 :: int] = length [3 :: int] \<and> list_all (\<lambda>s. 1 \<le> s) [2 :: int]
        \<and> list_all2 (\<lambda>k s. 0 \<le> (k - 1) * s + 1) [3] [2 :: int]"
    by (simp add: fromShape_def)
  with applyDilation_steps [where dilation = "[2]" and st = "fromShape [1, 1, 3]"
      and a = 1 and b = 1 and k_s = "[3]"]
  obtain st4 where r: "applyDilation (fromShape [1, 1, 3]) [2] = Inr st4"
    and sh: "shape st4 = 1 # 1 # map2 (\<lambda>k s. (k - 1) * s + 1) [3] [2]"
    by blast
  have "(case applyDilation (fromShape [1, 1, 3]) [2] of
           Inl e \<Rightarrow> False
         | Inr st \<Rightarrow> map (\<lambda>i. addr st [0, 0, i]) [0, 1, 2, 3, 4]
                      = [Some 0, None, Some 1, None, Some 2])"
    by code_simp
  with r have "map (\<lambda>i. addr st4 [0, 0, i]) [0, 1, 2, 3, 4] = [Some 0, None, Some 1, None, Some 2]"
    by simp
  moreover from sh have "shape st4 = [1, 1, 5]" by simp
  ultimately have "\<exists>st4. applyDilation (fromShape [1, 1, 3]) [2] = Inr st4
         \<and> shape st4 = [1, 1, 5]
         \<and> map (\<lambda>i. addr st4 [0, 0, i]) [0, 1, 2, 3, 4] = [Some 0, None, Some 1, None, Some 2]"
    using r by (intro exI [of _ st4] conjI)
  with one show ?thesis by (rule conjI)
qed

section \<open>The shape of a pooled view\<close>

lemma ceiling_of_int_div:
  "\<lceil>rat_of_int a / rat_of_int s\<rceil> = - ((- a) div s)"
  using floor_divide_of_int_eq [where ?'a = rat, of "- a" s]
  by (simp add: ceiling_def)

lemma ceil_div_lower:
  fixes a s :: int
  assumes "0 < s"
  shows "a \<le> \<lceil>rat_of_int a / rat_of_int s\<rceil> * s"
proof -
  have "- a = (- a) div s * s + (- a) mod s" by simp
  moreover have "0 \<le> (- a) mod s" using assms by simp
  ultimately have "(- a) div s * s \<le> - a" by linarith
  then show ?thesis by (simp add: ceiling_of_int_div)
qed

lemma ceil_div_upper:
  fixes a s :: int
  assumes "0 < s"
  shows "\<lceil>rat_of_int a / rat_of_int s\<rceil> * s < a + s"
proof -
  have "- a = (- a) div s * s + (- a) mod s" by simp
  moreover have "(- a) mod s < s" using assms by simp
  ultimately have "- a < (- a) div s * s + s" by linarith
  then show ?thesis by (simp add: ceiling_of_int_div)
qed

lemma oF_nonneg: "axisOk i d k s \<Longrightarrow> 0 \<le> oF i d k s"
  by (simp add: axisOk_def)

lemma oF_fits: "axisOk i d k s \<Longrightarrow> oF i d k s * s \<le> i * fF i d k s + d"
  by (simp add: axisOk_def)

lemma row_nonneg: "axisOk i d k s \<Longrightarrow> 0 \<le> i * fF i d k s + d"
proof -
  assume h: "axisOk i d k s"
  then have "0 \<le> oF i d k s" "0 \<le> s" by (simp_all add: axisOk_def)
  then have "0 \<le> oF i d k s * s" by simp
  with oF_fits [OF h] show ?thesis by linarith
qed

lemma window_nonneg: "axisOk i d k s \<Longrightarrow> 0 \<le> k * (i * fF i d k s + d)"
proof -
  assume h: "axisOk i d k s"
  then have "0 \<le> k" by (simp add: axisOk_def)
  with row_nonneg [OF h] show ?thesis by simp
qed

lemma rF_covers: "axisOk i d k s \<Longrightarrow> k * (i * fF i d k s + d) \<le> i * rF i d k s"
proof -
  assume "axisOk i d k s"
  then have "0 < i" by (simp add: axisOk_def)
  from ceil_div_lower [OF this, of "k * (i * fF i d k s + d)"]
  show ?thesis by (simp add: rF_def mult.commute)
qed

lemma rF_nonneg: "axisOk i d k s \<Longrightarrow> 0 \<le> rF i d k s"
proof -
  assume h: "axisOk i d k s"
  then have i: "0 < i" by (simp add: axisOk_def)
  from window_nonneg [OF h] rF_covers [OF h] have "0 \<le> i * rF i d k s"
    by linarith
  with i show ?thesis by (simp add: zero_le_mult_iff)
qed

text \<open>
  For a kernel size and a dilation of at least 1 the condition is: the extent and the
  stride are positive, the dilated kernel exceeds the input by less than the stride, and
  the kernel does not fit at all (output extent 0) or the stride is at most \<open>2 * i + d\<close>.
\<close>

lemma axisOk_positive_iff:
  assumes k: "1 \<le> k" and d: "1 \<le> d"
  shows "axisOk i d k s \<longleftrightarrow>
           1 \<le> i \<and> 1 \<le> s \<and> d * (k - 1) < i + s \<and> (i \<le> d * (k - 1) \<or> s \<le> 2 * i + d)"
proof (cases "1 \<le> i \<and> 1 \<le> s")
  case False
  then show ?thesis by (auto simp: axisOk_def)
next
  case True
  then have i: "1 \<le> i" and s: "0 < s" by simp_all
  let ?a = "i - d * (k - 1)"
  let ?o = "oF i d k s"
  from k d have dk: "0 \<le> d * (k - 1)" by simp
  have lo: "?a \<le> ?o * s" unfolding oF_def using s by (rule ceil_div_lower)
  have up: "?o * s < ?a + s" unfolding oF_def using s by (rule ceil_div_upper)
  have f1: "1 \<le> fF i d k s" by (simp add: fF_def)
  have o_iff: "0 \<le> ?o \<longleftrightarrow> d * (k - 1) < i + s"
  proof
    assume "0 \<le> ?o"
    with s have "0 \<le> ?o * s" by simp
    with up show "d * (k - 1) < i + s" by linarith
  next
    assume "d * (k - 1) < i + s"
    with lo have "0 < (?o + 1) * s" by (simp add: algebra_simps)
    with s have "0 < ?o + 1" by (simp add: zero_less_mult_iff)
    then show "0 \<le> ?o" by simp
  qed
  have fit_iff: "?o * s \<le> i * fF i d k s + d \<longleftrightarrow> (i \<le> d * (k - 1) \<or> s \<le> 2 * i + d)"
    if o: "0 \<le> ?o"
  proof (cases "i \<le> d * (k - 1)")
    case True
    with up have "?o * s < 1 * s" by simp
    with s have "?o < 1" by (simp only: mult_less_cancel_right_pos)
    with o have "?o = 0" by simp
    moreover from i f1 have "0 \<le> i * fF i d k s" by simp
    ultimately show ?thesis using True d by simp
  next
    case False
    then have a: "1 \<le> ?a" by simp
    from lo a have "0 < ?o * s" by linarith
    with s have o1: "1 \<le> ?o" by (simp add: zero_less_mult_iff)
    show ?thesis
    proof (cases "?o * s > ?a")
      case gt: True
      then have f: "fF i d k s = 2" by (simp add: fF_def)
      show ?thesis
      proof
        assume "?o * s \<le> i * fF i d k s + d"
        with f have le: "?o * s \<le> 2 * i + d" by simp
        from o1 s have "1 * s \<le> ?o * s" by (simp only: mult_le_cancel_right_pos)
        with le show "i \<le> d * (k - 1) \<or> s \<le> 2 * i + d" by simp
      next
        assume "i \<le> d * (k - 1) \<or> s \<le> 2 * i + d"
        with False have b: "s \<le> 2 * i + d" by simp
        show "?o * s \<le> i * fF i d k s + d"
        proof (cases "s \<le> ?a")
          case True
          with up dk d f show ?thesis by simp
        next
          case False
          with up have "?o * s < 2 * s" by simp
          with s have "?o < 2" by (simp only: mult_less_cancel_right_pos)
          with o1 have "?o = 1" by simp
          with b f show ?thesis by simp
        qed
      qed
    next
      case le: False
      then have f: "fF i d k s = 1" by (simp add: fF_def)
      from le dk d f have "?o * s \<le> i * fF i d k s + d" by simp
      moreover from le lo have "?o * s = ?a" by simp
      with o1 s have "s \<le> ?a"
        by (metis mult_le_cancel_right_pos mult_1)
      with dk d i have "s \<le> 2 * i + d" by simp
      ultimately show ?thesis by simp
    qed
  qed
  from True k o_iff fit_iff show ?thesis
    by (auto simp: axisOk_def)
qed

lemma zipn_simps [simp]:
  "zipn3 [] bs cs = []"
  "zipn3 (a # as) (b # bs) (c # cs) = (a, b, c) # zipn3 as bs cs"
  "zipn4 [] bs cs ds = []"
  "zipn4 (a # as) (b # bs) (c # cs) (d # ds) = (a, b, c, d) # zipn4 as bs cs ds"
  "zipn5 [] bs cs ds es = []"
  "zipn5 (a # as) (b # bs) (c # cs) (d # ds) (e # es) = (a, b, c, d, e) # zipn5 as bs cs ds es"
  by (simp_all add: zipn3_def zipn4_def zipn5_def)

lemma per_axis_lists_simps [simp]:
  "o_list [] d_s ks s_s = []"
  "o_list (i # i_s) (d # d_s) (k # ks) (s # s_s) = oF i d k s # o_list i_s d_s ks s_s"
  "f_list [] d_s ks s_s = []"
  "f_list (i # i_s) (d # d_s) (k # ks) (s # s_s) = fF i d k s # f_list i_s d_s ks s_s"
  "r_list [] d_s ks s_s = []"
  "r_list (i # i_s) (d # d_s) (k # ks) (s # s_s) = rF i d k s # r_list i_s d_s ks s_s"
  "axesOk [] d_s ks s_s"
  "axesOk (i # i_s) (d # d_s) (k # ks) (s # s_s) \<longleftrightarrow> axisOk i d k s \<and> axesOk i_s d_s ks s_s"
  by (simp_all add: o_list_def f_list_def r_list_def axesOk_def)

lemma per_axis_lengths [simp]:
  assumes "length i_s = length d_s" "length d_s = length ks" "length ks = length s_s"
  shows "length (o_list i_s d_s ks s_s) = length s_s"
    and "length (f_list i_s d_s ks s_s) = length s_s"
    and "length (r_list i_s d_s ks s_s) = length s_s"
  using assms by (simp_all add: o_list_def f_list_def r_list_def zipn4_def)

lemma those_map_Some:
  "(\<And>q. q \<in> set Q \<Longrightarrow> g q = Some (h q)) \<Longrightarrow> those (map g Q) = Some (map h Q)"
  by (induction Q) simp_all

lemma those_map_SomeD:
  "those (map g Q) = Some ys \<Longrightarrow> (\<And>q y. q \<in> set Q \<Longrightarrow> g q = Some y \<Longrightarrow> y = h q) \<Longrightarrow> ys = map h Q"
proof (induction Q arbitrary: ys)
  case Nil
  then show ?case by simp
next
  case (Cons q Q)
  from Cons.prems(1) obtain y ys' where y: "g q = Some y" and t: "those (map g Q) = Some ys'"
    and ys: "ys = y # ys'"
    by (auto split: option.splits)
  from Cons.prems(2) y have "y = h q" by simp
  moreover from Cons.IH [OF t] Cons.prems(2) have "ys' = map h Q" by simp
  ultimately show ?case using ys by simp
qed

lemma pool_o_SomeD:
  "pool_o i_s d_s ks s_s = Some o_s \<Longrightarrow> o_s = o_list i_s d_s ks s_s"
  unfolding pool_o_def o_list_def
  by (erule those_map_SomeD) (auto simp: ceilDiv_def oF_def split: if_splits)

lemma pool_o_Some:
  assumes "length i_s = length d_s" "length d_s = length ks" "length ks = length s_s"
    and "axesOk i_s d_s ks s_s"
  shows "pool_o i_s d_s ks s_s = Some (o_list i_s d_s ks s_s)"
  unfolding pool_o_def o_list_def
proof (rule those_map_Some)
  fix q assume "q \<in> set (zipn4 i_s d_s ks s_s)"
  with assms(4) have "case q of (i, d, k, s) \<Rightarrow> axisOk i d k s"
    by (simp add: axesOk_def list_all_iff)
  then show "(case q of (i, d, k, s) \<Rightarrow> ceilDiv (i - d * (k - 1)) s)
           = Some (case q of (i, d, k, s) \<Rightarrow> oF i d k s)"
    by (auto simp: ceilDiv_def oF_def axisOk_def)
qed

lemma pool_f_list:
  assumes "length i_s = length d_s" "length d_s = length ks" "length ks = length s_s"
  shows "pool_f (o_list i_s d_s ks s_s) s_s i_s d_s ks = f_list i_s d_s ks s_s"
  using assms
  by (induction i_s d_s ks s_s rule: list_induct4) (simp_all add: pool_f_def fF_def)

lemma reps_Some:
  assumes "length i_s = length d_s" "length d_s = length ks" "length ks = length s_s"
    and "axesOk i_s d_s ks s_s"
  shows "those (map (\<lambda>(k, i, d, f). ceilDiv (k * (i * f + d)) i)
           (zipn4 ks i_s d_s (f_list i_s d_s ks s_s))) = Some (r_list i_s d_s ks s_s)"
  using assms
  by (induction i_s d_s ks s_s rule: list_induct4)
     (simp_all add: ceilDiv_def rF_def axisOk_def)

lemma r_list_nonneg:
  assumes "length i_s = length d_s" "length d_s = length ks" "length ks = length s_s"
    and "axesOk i_s d_s ks s_s"
  shows "list_all (\<lambda>r. 0 \<le> r) (r_list i_s d_s ks s_s)"
  using assms
  by (induction i_s d_s ks s_s rule: list_induct4) (simp_all add: rF_nonneg)

lemma stage_shrink1:
  assumes "length i_s = length d_s" "length d_s = length ks" "length ks = length s_s"
    and "axesOk i_s d_s ks s_s"
  shows "list_all2 inRange (map2 (*) i_s (r_list i_s d_s ks s_s))
           (map (\<lambda>(k, i, d, f). (0, k * (i * f + d))) (zipn4 ks i_s d_s (f_list i_s d_s ks s_s)))"
  using assms
  by (induction i_s d_s ks s_s rule: list_induct4)
     (simp_all add: window_nonneg rF_covers)

lemma stage_reshape1_nonneg:
  assumes "length i_s = length d_s" "length d_s = length ks" "length ks = length s_s"
    and "axesOk i_s d_s ks s_s"
  shows "list_all (\<lambda>n. 0 \<le> n)
           (concat (map (\<lambda>(k, i, d, f). [k, i * f + d]) (zipn4 ks i_s d_s (f_list i_s d_s ks s_s))))"
  using assms
proof (induction i_s d_s ks s_s rule: list_induct4)
  case Nil
  show ?case by simp
next
  case (Cons i i_s d d_s k ks s s_s)
  from Cons.prems have ok: "axisOk i d k s" by simp
  then have "0 \<le> k" by (simp add: axisOk_def)
  moreover from ok have "0 \<le> i * fF i d k s + d" by (rule row_nonneg)
  ultimately show ?case using Cons by simp
qed

lemma stage_shrink2:
  assumes "length i_s = length d_s" "length d_s = length ks" "length ks = length s_s"
    and "axesOk i_s d_s ks s_s"
  shows "list_all2 inRange
           (concat (map (\<lambda>(k, i, d, f). [k, i * f + d]) (zipn4 ks i_s d_s (f_list i_s d_s ks s_s))))
           (concat (map (\<lambda>(k, o', s). [(0, k), (0, o' * s)]) (zipn3 ks (o_list i_s d_s ks s_s) s_s)))"
  using assms
proof (induction i_s d_s ks s_s rule: list_induct4)
  case Nil
  show ?case by simp
next
  case (Cons i i_s d d_s k ks s s_s)
  from Cons.prems have ok: "axisOk i d k s" by simp
  then have "0 \<le> k" "0 \<le> s" by (simp_all add: axisOk_def)
  moreover from ok have "0 \<le> oF i d k s" by (rule oF_nonneg)
  moreover from ok have "oF i d k s * s \<le> i * fF i d k s + d" by (rule oF_fits)
  ultimately show ?case using Cons by simp
qed

lemma stage_kos_nonneg:
  assumes "length i_s = length d_s" "length d_s = length ks" "length ks = length s_s"
    and "axesOk i_s d_s ks s_s"
  shows "list_all (\<lambda>(k, o', s). 0 \<le> k \<and> 0 \<le> o' \<and> 1 \<le> s) (zipn3 ks (o_list i_s d_s ks s_s) s_s)"
  using assms
proof (induction i_s d_s ks s_s rule: list_induct4)
  case Nil
  show ?case by simp
next
  case (Cons i i_s d d_s k ks s s_s)
  from Cons.prems have ok: "axisOk i d k s" by simp
  then have "0 \<le> k" "1 \<le> s" by (simp_all add: axisOk_def)
  moreover from ok have "0 \<le> oF i d k s" by (rule oF_nonneg)
  ultimately show ?case using Cons by simp
qed

lemma extents_kidf:
  "map (\<lambda>(b, e). e - b) (map (\<lambda>(k, i, d, f). (0, k * (i * f + d))) kidf)
     = map (\<lambda>(k, i, d, f). k * (i * f + d)) (kidf :: (int \<times> int \<times> int \<times> int) list)"
  by (induction kidf) auto

lemma prodN_kidf:
  "prodN (concat (map (\<lambda>(k, i, d, f). [k, i * f + d]) kidf))
     = prodN (map (\<lambda>(k, i, d, f). k * (i * f + d)) kidf)"
  by (induction kidf) (auto simp: algebra_simps)

lemma extents_kos2:
  "map (\<lambda>(b, e). e - b) (concat (map (\<lambda>(k, o', s). [(0, k), (0, o' * s)]) kos))
     = concat (map (\<lambda>(k, o', s). [k, o' * s]) (kos :: (int \<times> int \<times> int) list))"
  by (induction kos) auto

lemma prodN_kos2:
  "prodN (concat (map (\<lambda>(k, o', s). [k, o', s]) kos))
     = prodN (concat (map (\<lambda>(k, o', s). [k, o' * s]) kos))"
  by (induction kos) (auto simp: algebra_simps)

lemma nonneg_kos3:
  "list_all (\<lambda>(k, o', s). 0 \<le> k \<and> 0 \<le> o' \<and> 1 \<le> s) kos \<Longrightarrow>
   list_all (\<lambda>n. (0::int) \<le> n) (concat (map (\<lambda>(k, o', s). [k, o', s]) kos))"
  by (induction kos) auto

lemma stage_shrink3:
  "list_all (\<lambda>(k, o', s). 0 \<le> k \<and> 0 \<le> o' \<and> 1 \<le> s) kos \<Longrightarrow>
   list_all2 inRange (concat (map (\<lambda>(k, o', s). [k, o', s]) kos))
     (concat (map (\<lambda>(k, o', s). [(0, k), (0, o'), (0, 1)]) kos))"
  by (induction kos) auto

lemma extents_kos3:
  "map (\<lambda>(b, e). e - b) (concat (map (\<lambda>(k, o', s). [(0, k), (0, o'), (0, 1)]) kos))
     = concat (map (\<lambda>(k, o', s). [k, o', 1]) (kos :: (int \<times> int \<times> int) list))"
  by (induction kos) auto

lemma prodN_kos3:
  "prodN (concat (map (\<lambda>(k, o', s). [k, o']) kos))
     = prodN (concat (map (\<lambda>(k, o', s). [k, o', 1]) (kos :: (int \<times> int \<times> int) list)))"
  by (induction kos) auto

lemma nonneg_kos4:
  "list_all (\<lambda>(k, o', s). 0 \<le> k \<and> 0 \<le> o' \<and> 1 \<le> s) kos \<Longrightarrow>
   list_all (\<lambda>n. (0::int) \<le> n) (concat (map (\<lambda>(k, o', s). [k, o']) kos))"
  by (induction kos) auto

lemma length_kos4:
  "length (concat (map (\<lambda>(k, o', s). [k, o']) kos)) = 2 * length kos"
  by (induction kos) auto

lemma map2_mult_ones:
  "map2 (*) (A @ xs) (replicate (length A) 1 @ ys) = A @ map2 (*) xs (ys :: int list)"
  by (induction A) simp_all

lemma noop_ranges:
  "list_all (\<lambda>n. 0 \<le> n) A \<Longrightarrow> list_all2 inRange A (map (\<lambda>x. (0, x)) A)"
  by (induction A) simp_all

lemma noop_extents: "map (\<lambda>(b, e). e - b) (map (\<lambda>x. (0, x)) A) = (A :: int list)"
  by (induction A) simp_all

lemma nth_kos4:
  assumes "length ks = length os" "length os = length ss" "j < length ks"
  shows "concat (map (\<lambda>(k, o', s). [k, o']) (zipn3 ks os ss)) ! (2 * j) = ks ! j
       \<and> concat (map (\<lambda>(k, o', s). [k, o']) (zipn3 ks os ss)) ! (2 * j + 1) = os ! j"
  using assms
proof (induction ks os ss arbitrary: j rule: list_induct3)
  case Nil
  then show ?case by simp
next
  case (Cons k ks o' os s ss)
  show ?case
  proof (cases j)
    case 0
    then show ?thesis by simp
  next
    case (Suc j')
    with Cons.prems have "j' < length ks" by simp
    from Cons.IH [OF this] Suc show ?thesis by simp
  qed
qed

lemma perm_distinct:
  "distinct (rangeN a @ map (\<lambda>j. a + 2 * j + 1) [0..<m] @ map (\<lambda>j. a + 2 * j) [0..<m])"
proof -
  have "distinct (map (\<lambda>j. a + 2 * j + 1) [0..<m])"
    by (simp add: distinct_map inj_on_def)
  moreover have "distinct (map (\<lambda>j. a + 2 * j) [0..<m])"
    by (simp add: distinct_map inj_on_def)
  moreover have "a + 2 * j + 1 \<noteq> a + 2 * j'" for j j' :: nat
    by presburger
  ultimately show ?thesis
    by (auto simp: rangeN_def)
qed

lemma perm_set:
  "set (rangeN a @ map (\<lambda>j. a + 2 * j + 1) [0..<m] @ map (\<lambda>j. a + 2 * j) [0..<m])
     = set [0..<a + 2 * m]"
proof (intro set_eqI iffI)
  fix x
  assume "x \<in> set (rangeN a @ map (\<lambda>j. a + 2 * j + 1) [0..<m] @ map (\<lambda>j. a + 2 * j) [0..<m])"
  then show "x \<in> set [0..<a + 2 * m]"
    by (auto simp: rangeN_def)
next
  fix x
  assume "x \<in> set [0..<a + 2 * m]"
  then have x: "x < a + 2 * m" by simp
  show "x \<in> set (rangeN a @ map (\<lambda>j. a + 2 * j + 1) [0..<m] @ map (\<lambda>j. a + 2 * j) [0..<m])"
  proof (cases "x < a")
    case True
    then show ?thesis by (simp add: rangeN_def)
  next
    case False
    define j where "j = (x - a) div 2"
    from False x have j: "j < m" unfolding j_def by presburger
    show ?thesis
    proof (cases "even (x - a)")
      case True
      with False have "x = a + 2 * j" unfolding j_def by presburger
      with j show ?thesis by (auto simp: image_iff)
    next
      case False
      with \<open>\<not> x < a\<close> have "x = a + 2 * j + 1" unfolding j_def by presburger
      with j show ?thesis by (auto simp: image_iff)
    qed
  qed
qed

lemma perm_shape:
  assumes "length ks = length os" "length os = length ss"
  shows "map (\<lambda>p. (A @ concat (map (\<lambda>(k, o', s). [k, o']) (zipn3 ks os ss))) ! p)
           (rangeN (length A) @ map (\<lambda>j. length A + 2 * j + 1) [0..<length ks]
              @ map (\<lambda>j. length A + 2 * j) [0..<length ks])
         = A @ os @ ks"
proof -
  let ?C = "concat (map (\<lambda>(k, o', s). [k, o']) (zipn3 ks os ss))"
  have 1: "map (\<lambda>p. (A @ ?C) ! p) (rangeN (length A)) = A"
    by (rule nth_equalityI) (simp_all add: rangeN_def nth_append)
  have 2: "map (\<lambda>p. (A @ ?C) ! p) (map (\<lambda>j. length A + 2 * j + 1) [0..<length ks]) = os"
  proof (rule nth_equalityI)
    show "length (map (\<lambda>p. (A @ ?C) ! p) (map (\<lambda>j. length A + 2 * j + 1) [0..<length ks])) = length os"
      using assms by simp
  next
    fix j assume "j < length (map (\<lambda>p. (A @ ?C) ! p) (map (\<lambda>j. length A + 2 * j + 1) [0..<length ks]))"
    then have j: "j < length ks" by simp
    have "(A @ ?C) ! (length A + (2 * j + 1)) = ?C ! (2 * j + 1)"
      by (rule nth_append_length_plus)
    with nth_kos4 [OF assms j] j
    show "map (\<lambda>p. (A @ ?C) ! p) (map (\<lambda>j. length A + 2 * j + 1) [0..<length ks]) ! j = os ! j"
      by (simp add: add.assoc)
  qed
  have 3: "map (\<lambda>p. (A @ ?C) ! p) (map (\<lambda>j. length A + 2 * j) [0..<length ks]) = ks"
  proof (rule nth_equalityI)
    show "length (map (\<lambda>p. (A @ ?C) ! p) (map (\<lambda>j. length A + 2 * j) [0..<length ks])) = length ks"
      by simp
  next
    fix j assume "j < length (map (\<lambda>p. (A @ ?C) ! p) (map (\<lambda>j. length A + 2 * j) [0..<length ks]))"
    then have j: "j < length ks" by simp
    have "(A @ ?C) ! (length A + 2 * j) = ?C ! (2 * j)"
      by (rule nth_append_length_plus)
    with nth_kos4 [OF assms j] j
    show "map (\<lambda>p. (A @ ?C) ! p) (map (\<lambda>j. length A + 2 * j) [0..<length ks]) ! j = ks ! j"
      by simp
  qed
  show ?thesis
    unfolding map_append 1 2 3 ..
qed

lemma slice_leading:
  "0 < m \<Longrightarrow> m \<le> length xs \<Longrightarrow> slice xs 0 (- int m) = take (length xs - m) xs"
  by (simp add: slice_def Let_def nat_diff_distrib')

lemma sliceFrom_trailing:
  "0 < m \<Longrightarrow> m \<le> length xs \<Longrightarrow> sliceFrom xs (- int m) = drop (length xs - m) xs"
  by (simp add: sliceFrom_def slice_def Let_def nat_diff_distrib')

lemma bindE_InrE:
  assumes "bindE m f = Inr y"
  obtains x where "m = Inr x" and "f x = Inr y"
  using assms by (cases m) (simp_all add: bindE_def)

lemma reshape_InrD: "reshape st newShape = Inr st' \<Longrightarrow> shape st' = newShape"
  by (auto simp: reshape_def split: if_splits)

lemma permute_InrD: "permute st axes = Inr st' \<Longrightarrow> shape st' = map (\<lambda>a. shape st ! a) axes"
  by (auto simp: permute_def split: if_splits)

lemma pool_returns_shape:
  assumes ne: "ks \<noteq> []" and le: "length ks \<le> length (shape st)"
    and s_s: "s_s = (case stridesArg of Number v \<Rightarrow> rep (length ks) v | Numbers l \<Rightarrow> l)"
    and d_s: "d_s = (case dilationArg of Number v \<Rightarrow> rep (length ks) v | Numbers l \<Rightarrow> l)"
    and ls: "length s_s = length ks" and ld: "length d_s = length ks"
    and A: "A = take (length (shape st) - length ks) (shape st)"
    and i_s: "i_s = drop (length (shape st) - length ks) (shape st)"
    and ret: "pool st ks stridesArg dilationArg = Inr st'"
  shows "shape st' = A @ o_list i_s d_s ks s_s @ ks"
proof -
  from ne have m: "0 < length ks" by simp
  from le i_s have li: "length i_s = length ks" by simp
  from ret le obtain o_s reps where o: "pool_o i_s d_s ks s_s = Some o_s"
    and chain: "bindE (repeat st (rep (length A) 1 @ reps)) (\<lambda>st.
      bindE (shrink st (map (\<lambda>x. (0, x)) A
                         @ map (\<lambda>(k, i, d, f). (0, k * (i * f + d)))
                             (zipn4 ks i_s d_s (pool_f o_s s_s i_s d_s ks)))) (\<lambda>st.
      bindE (reshape st (A @ concat (map (\<lambda>(k, i, d, f). [k, i * f + d])
                             (zipn4 ks i_s d_s (pool_f o_s s_s i_s d_s ks))))) (\<lambda>st.
      bindE (shrink st (map (\<lambda>x. (0, x)) A
                         @ concat (map (\<lambda>(k, o', s). [(0, k), (0, o' * s)]) (zipn3 ks o_s s_s)))) (\<lambda>st.
      bindE (reshape st (A @ concat (map (\<lambda>(k, o', s). [k, o', s]) (zipn3 ks o_s s_s)))) (\<lambda>st.
      bindE (shrink st (map (\<lambda>x. (0, x)) A
                         @ concat (map (\<lambda>(k, o', s). [(0, k), (0, o'), (0, 1)]) (zipn3 ks o_s s_s)))) (\<lambda>st.
      bindE (reshape st (A @ concat (map (\<lambda>(k, o', s). [k, o']) (zipn3 ks o_s s_s)))) (\<lambda>st.
      permute st (rangeN (length A)
                  @ map (\<lambda>j. length A + 2 * j + 1) [0..<length ks]
                  @ map (\<lambda>j. length A + 2 * j) [0..<length ks])))))))) = Inr st'"
    unfolding pool_def Let_def s_s [symmetric] d_s [symmetric]
      slice_leading [OF m le] sliceFrom_trailing [OF m le] A [symmetric] i_s [symmetric]
    by (auto split: option.splits if_splits)
  from o have os: "o_s = o_list i_s d_s ks s_s" by (rule pool_o_SomeD)
  from li ld ls have lo: "length ks = length o_s" by (simp add: os)
  from ls lo have lo': "length o_s = length s_s" by simp
  from chain show ?thesis
  proof (elim bindE_InrE)
    fix st1 st2 st3 st4 st5 st6 st7
    assume "reshape st6 (A @ concat (map (\<lambda>(k, o', s). [k, o']) (zipn3 ks o_s s_s))) = Inr st7"
      and "permute st7 (rangeN (length A)
                  @ map (\<lambda>j. length A + 2 * j + 1) [0..<length ks]
                  @ map (\<lambda>j. length A + 2 * j) [0..<length ks]) = Inr st'"
    then have "shape st' = map (\<lambda>p. (A @ concat (map (\<lambda>(k, o', s). [k, o']) (zipn3 ks o_s s_s))) ! p)
           (rangeN (length A) @ map (\<lambda>j. length A + 2 * j + 1) [0..<length ks]
              @ map (\<lambda>j. length A + 2 * j) [0..<length ks])"
      by (auto dest!: reshape_InrD permute_InrD)
    also have "\<dots> = A @ o_s @ ks" using lo lo' by (rule perm_shape)
    finally show ?thesis by (simp add: os)
  qed
qed

lemma pool_returns:
  assumes ne: "ks \<noteq> []" and le: "length ks \<le> length (shape st)"
    and s_s: "s_s = (case stridesArg of Number v \<Rightarrow> rep (length ks) v | Numbers l \<Rightarrow> l)"
    and d_s: "d_s = (case dilationArg of Number v \<Rightarrow> rep (length ks) v | Numbers l \<Rightarrow> l)"
    and ls: "length s_s = length ks" and ld: "length d_s = length ks"
    and A: "A = take (length (shape st) - length ks) (shape st)"
    and i_s: "i_s = drop (length (shape st) - length ks) (shape st)"
    and nnA: "list_all (\<lambda>n. 0 \<le> n) A"
    and ok: "axesOk i_s d_s ks s_s"
  shows "\<exists>st'. pool st ks stridesArg dilationArg = Inr st'"
proof -
  from ne have m: "0 < length ks" by simp
  from le i_s have li: "length i_s = length ks" by simp
  from A i_s have shp: "shape st = A @ i_s" by simp
  from li ld ls have l1: "length i_s = length d_s" and l2: "length d_s = length ks"
    and l3: "length ks = length s_s" by simp_all
  note lens = l1 l2 l3
  let ?os = "o_list i_s d_s ks s_s"
  let ?fs = "f_list i_s d_s ks s_s"
  let ?rs = "r_list i_s d_s ks s_s"
  let ?kidf = "zipn4 ks i_s d_s ?fs"
  let ?kos = "zipn3 ks ?os s_s"
  have o: "pool_o i_s d_s ks s_s = Some ?os" using lens ok by (rule pool_o_Some)
  have f: "pool_f ?os s_s i_s d_s ks = ?fs" using lens by (rule pool_f_list)
  have r: "those (map (\<lambda>(k, i, d, f). ceilDiv (k * (i * f + d)) i) ?kidf) = Some ?rs"
    using lens ok by (rule reps_Some)
  have kosok: "list_all (\<lambda>(k, o', s). 0 \<le> k \<and> 0 \<le> o' \<and> 1 \<le> s) ?kos"
    using lens ok by (rule stage_kos_nonneg)
  have lkos: "length ?kos = length ks" using lens by (simp add: zipn3_def)

  let ?a1 = "replicate (length A) 1 @ ?rs"
  have "list_all (\<lambda>r. 0 \<le> r) (replicate (length A) (1 :: int))"
    by (simp add: list_all_iff)
  moreover have "list_all (\<lambda>r. 0 \<le> r) ?rs" using lens ok by (rule r_list_nonneg)
  ultimately have "length ?a1 = length (shape st)" "list_all (\<lambda>r. 0 \<le> r) ?a1"
    using lens shp by simp_all
  from repeat_Inr [OF this] obtain st1 where st1: "repeat st ?a1 = Inr st1"
    and "shape st1 = map2 (*) (shape st) ?a1" by blast
  then have s1: "shape st1 = A @ map2 (*) i_s ?rs" by (simp only: shp map2_mult_ones)

  let ?a2 = "map (\<lambda>x. (0, x)) A @ map (\<lambda>(k, i, d, f). (0, k * (i * f + d))) ?kidf"
  have "list_all2 inRange (shape st1) ?a2"
    unfolding s1 using nnA lens ok by (intro list_all2_appendI noop_ranges stage_shrink1)
  from shrink_Inr [OF this] obtain st2 where st2: "shrink st1 ?a2 = Inr st2"
    and "shape st2 = map (\<lambda>(b, e). e - b) ?a2" by blast
  then have s2: "shape st2 = A @ map (\<lambda>(k, i, d, f). k * (i * f + d)) ?kidf"
    by (simp only: map_append noop_extents extents_kidf)

  let ?a3 = "A @ concat (map (\<lambda>(k, i, d, f). [k, i * f + d]) ?kidf)"
  have "list_all (\<lambda>n. 0 \<le> n) ?a3" "prodN ?a3 = prodN (shape st2)"
    using nnA lens ok by (simp_all add: s2 prodN_append prodN_kidf stage_reshape1_nonneg)
  from reshape_Inr [OF this] obtain st3 where st3: "reshape st2 ?a3 = Inr st3"
    and s3: "shape st3 = ?a3" by blast

  let ?a4 = "map (\<lambda>x. (0, x)) A @ concat (map (\<lambda>(k, o', s). [(0, k), (0, o' * s)]) ?kos)"
  have "list_all2 inRange (shape st3) ?a4"
    unfolding s3 using nnA lens ok by (intro list_all2_appendI noop_ranges stage_shrink2)
  from shrink_Inr [OF this] obtain st4 where st4: "shrink st3 ?a4 = Inr st4"
    and "shape st4 = map (\<lambda>(b, e). e - b) ?a4" by blast
  then have s4: "shape st4 = A @ concat (map (\<lambda>(k, o', s). [k, o' * s]) ?kos)"
    by (simp only: map_append noop_extents extents_kos2)

  let ?a5 = "A @ concat (map (\<lambda>(k, o', s). [k, o', s]) ?kos)"
  have "list_all (\<lambda>n. 0 \<le> n) ?a5" "prodN ?a5 = prodN (shape st4)"
    using nnA kosok by (simp_all add: s4 prodN_append prodN_kos2 nonneg_kos3)
  from reshape_Inr [OF this] obtain st5 where st5: "reshape st4 ?a5 = Inr st5"
    and s5: "shape st5 = ?a5" by blast

  let ?a6 = "map (\<lambda>x. (0, x)) A @ concat (map (\<lambda>(k, o', s). [(0, k), (0, o'), (0, 1)]) ?kos)"
  have "list_all2 inRange (shape st5) ?a6"
    unfolding s5 using nnA kosok by (intro list_all2_appendI noop_ranges stage_shrink3)
  from shrink_Inr [OF this] obtain st6 where st6: "shrink st5 ?a6 = Inr st6"
    and "shape st6 = map (\<lambda>(b, e). e - b) ?a6" by blast
  then have s6: "shape st6 = A @ concat (map (\<lambda>(k, o', s). [k, o', 1]) ?kos)"
    by (simp only: map_append noop_extents extents_kos3)

  let ?a7 = "A @ concat (map (\<lambda>(k, o', s). [k, o']) ?kos)"
  have "list_all (\<lambda>n. 0 \<le> n) ?a7" "prodN ?a7 = prodN (shape st6)"
    using nnA kosok by (simp_all add: s6 prodN_append prodN_kos3 nonneg_kos4)
  from reshape_Inr [OF this] obtain st7 where st7: "reshape st6 ?a7 = Inr st7"
    and s7: "shape st7 = ?a7" by blast

  let ?a8 = "rangeN (length A) @ map (\<lambda>j. length A + 2 * j + 1) [0..<length ks]
                  @ map (\<lambda>j. length A + 2 * j) [0..<length ks]"
  have "length (shape st7) = length A + 2 * length ks"
    by (simp add: s7 length_kos4 lkos)
  then have "distinct ?a8" "set ?a8 = set [0..<length (shape st7)]"
    by (simp_all only: perm_distinct perm_set)
  from permute_Inr [OF this] obtain st8 where st8: "permute st7 ?a8 = Inr st8"
    by blast

  have "pool st ks stridesArg dilationArg = Inr st8"
    unfolding pool_def Let_def s_s [symmetric] d_s [symmetric]
      slice_leading [OF m le] sliceFrom_trailing [OF m le] A [symmetric] i_s [symmetric]
    using le st8 by (simp add: o f r rep_def st1 st2 st3 st4 st5 st6 st7)
  then show ?thesis ..
qed

text \<open>
  With an empty list of kernel sizes \<open>pool\<close> applies every view operation to an empty
  argument, which only a view without axes accepts.
\<close>

lemma pool_no_kernel:
  "pool st [] stridesArg dilationArg =
     bindE (repeat st []) (\<lambda>st.
     bindE (shrink st []) (\<lambda>st.
     bindE (reshape st []) (\<lambda>st.
     bindE (shrink st []) (\<lambda>st.
     bindE (reshape st []) (\<lambda>st.
     bindE (shrink st []) (\<lambda>st.
     bindE (reshape st []) (\<lambda>st. permute st [])))))))"
  by (simp add: pool_def Let_def slice_def sliceFrom_def pool_o_def pool_f_def
      zipn3_def zipn4_def zipn5_def rep_def rangeN_def)

lemma pool_no_kernel_shape:
  assumes "pool st [] stridesArg dilationArg = Inr st'"
  shows "shape st = [] \<and> shape st' = []"
proof -
  from assms have c: "bindE (repeat st []) (\<lambda>st.
     bindE (shrink st []) (\<lambda>st.
     bindE (reshape st []) (\<lambda>st.
     bindE (shrink st []) (\<lambda>st.
     bindE (reshape st []) (\<lambda>st.
     bindE (shrink st []) (\<lambda>st.
     bindE (reshape st []) (\<lambda>st. permute st []))))))) = Inr st'"
    by (simp only: pool_no_kernel)
  then show ?thesis
  proof (elim bindE_InrE)
    fix st1 st2 st3 st4 st5 st6 st7
    assume "repeat st [] = Inr st1" and "permute st7 [] = Inr st'"
    then show ?thesis
      by (auto simp: repeat_def dest!: permute_InrD split: if_splits)
  qed
qed

lemma pool_no_kernel_returns:
  assumes "shape st = []"
  shows "\<exists>st'. pool st [] stridesArg dilationArg = Inr st'"
  using assms
  by (simp add: pool_no_kernel repeat_def shrink_def reshape_def permute_def)

text \<open>
  The condition \<open>axesOk\<close> is also necessary: on a view without negative extents and
  with a non-empty \<open>ks\<close>, \<open>pool\<close> returns only if every trailing axis satisfies it.
\<close>

lemma shrink_InrD:
  "shrink st arg = Inr st' \<Longrightarrow> list_all2 inRange (shape st) arg"
  by (auto simp: shrink_def split: if_splits)

lemma reps_defined:
  assumes "length i_s = length d_s" "length d_s = length ks" "length ks = length s_s"
    and "those (map (\<lambda>(k, i, d, f). ceilDiv (k * (i * f + d)) i)
           (zipn4 ks i_s d_s (f_list i_s d_s ks s_s))) = Some reps"
  shows "list_all (\<lambda>i. i \<noteq> 0) i_s"
  using assms
proof (induction i_s d_s ks s_s arbitrary: reps rule: list_induct4)
  case Nil
  show ?case by simp
next
  case (Cons i i_s d d_s k ks s s_s)
  from Cons.prems obtain reps' where "i \<noteq> 0"
    and "those (map (\<lambda>(k, i, d, f). ceilDiv (k * (i * f + d)) i)
           (zipn4 ks i_s d_s (f_list i_s d_s ks s_s))) = Some reps'"
    by (auto simp: ceilDiv_def split: option.splits if_splits)
  with Cons.IH show ?case by simp
qed

lemma axes_accepted:
  assumes "length i_s = length d_s" "length d_s = length ks" "length ks = length s_s"
    and "list_all (\<lambda>i. 1 \<le> i) i_s"
    and "list_all2 inRange
           (concat (map (\<lambda>(k, i, d, f). [k, i * f + d]) (zipn4 ks i_s d_s (f_list i_s d_s ks s_s))))
           (concat (map (\<lambda>(k, o', s). [(0, k), (0, o' * s)]) (zipn3 ks (o_list i_s d_s ks s_s) s_s)))"
    and "list_all2 inRange
           (concat (map (\<lambda>(k, o', s). [k, o', s]) (zipn3 ks (o_list i_s d_s ks s_s) s_s)))
           (concat (map (\<lambda>(k, o', s). [(0, k), (0, o'), (0, 1)]) (zipn3 ks (o_list i_s d_s ks s_s) s_s)))"
  shows "axesOk i_s d_s ks s_s"
  using assms
  by (induction i_s d_s ks s_s rule: list_induct4) (simp_all add: axisOk_def)

lemma pool_returns_only_if:
  assumes ne: "ks \<noteq> []" and le: "length ks \<le> length (shape st)"
    and s_s: "s_s = (case stridesArg of Number v \<Rightarrow> rep (length ks) v | Numbers l \<Rightarrow> l)"
    and d_s: "d_s = (case dilationArg of Number v \<Rightarrow> rep (length ks) v | Numbers l \<Rightarrow> l)"
    and ls: "length s_s = length ks" and ld: "length d_s = length ks"
    and A: "A = take (length (shape st) - length ks) (shape st)"
    and i_s: "i_s = drop (length (shape st) - length ks) (shape st)"
    and nonneg: "list_all (\<lambda>n. 0 \<le> n) (shape st)"
    and ret: "pool st ks stridesArg dilationArg = Inr st'"
  shows "axesOk i_s d_s ks s_s"
proof -
  from ne have m: "0 < length ks" by simp
  from le i_s have li: "length i_s = length ks" by simp
  from li ld ls have l1: "length i_s = length d_s" and l2: "length d_s = length ks"
    and l3: "length ks = length s_s" by simp_all
  note lens = l1 l2 l3
  from A i_s have shp: "shape st = A @ i_s" by simp
  from ret le obtain o_s reps where o: "pool_o i_s d_s ks s_s = Some o_s"
    and r: "those (map (\<lambda>(k, i, d, f). ceilDiv (k * (i * f + d)) i)
           (zipn4 ks i_s d_s (pool_f o_s s_s i_s d_s ks))) = Some reps"
    and chain: "bindE (repeat st (rep (length A) 1 @ reps)) (\<lambda>st.
      bindE (shrink st (map (\<lambda>x. (0, x)) A
                         @ map (\<lambda>(k, i, d, f). (0, k * (i * f + d)))
                             (zipn4 ks i_s d_s (pool_f o_s s_s i_s d_s ks)))) (\<lambda>st.
      bindE (reshape st (A @ concat (map (\<lambda>(k, i, d, f). [k, i * f + d])
                             (zipn4 ks i_s d_s (pool_f o_s s_s i_s d_s ks))))) (\<lambda>st.
      bindE (shrink st (map (\<lambda>x. (0, x)) A
                         @ concat (map (\<lambda>(k, o', s). [(0, k), (0, o' * s)]) (zipn3 ks o_s s_s)))) (\<lambda>st.
      bindE (reshape st (A @ concat (map (\<lambda>(k, o', s). [k, o', s]) (zipn3 ks o_s s_s)))) (\<lambda>st.
      bindE (shrink st (map (\<lambda>x. (0, x)) A
                         @ concat (map (\<lambda>(k, o', s). [(0, k), (0, o'), (0, 1)]) (zipn3 ks o_s s_s)))) (\<lambda>st.
      bindE (reshape st (A @ concat (map (\<lambda>(k, o', s). [k, o']) (zipn3 ks o_s s_s)))) (\<lambda>st.
      permute st (rangeN (length A)
                  @ map (\<lambda>j. length A + 2 * j + 1) [0..<length ks]
                  @ map (\<lambda>j. length A + 2 * j) [0..<length ks])))))))) = Inr st'"
    unfolding pool_def Let_def s_s [symmetric] d_s [symmetric]
      slice_leading [OF m le] sliceFrom_trailing [OF m le] A [symmetric] i_s [symmetric]
    by (auto split: option.splits if_splits)
  from o have os: "o_s = o_list i_s d_s ks s_s" by (rule pool_o_SomeD)
  have f: "pool_f o_s s_s i_s d_s ks = f_list i_s d_s ks s_s"
    unfolding os using lens by (rule pool_f_list)
  from r have "list_all (\<lambda>i. i \<noteq> 0) i_s"
    unfolding f using lens by (intro reps_defined)
  moreover from nonneg shp have "list_all (\<lambda>i. 0 \<le> i) i_s" by simp
  ultimately have pos: "list_all (\<lambda>i. 1 \<le> i) i_s"
    unfolding list_all_iff
  proof (intro ballI)
    fix i assume "i \<in> set i_s"
    moreover assume "\<forall>i \<in> set i_s. i \<noteq> 0" and "\<forall>i \<in> set i_s. 0 \<le> i"
    ultimately have "i \<noteq> 0" and "0 \<le> i" by blast+
    then show "1 \<le> i" by linarith
  qed
  from chain show ?thesis
  proof (elim bindE_InrE)
    fix st1 st2 st3 st4 st5 st6 st7
    assume r3: "reshape st2 (A @ concat (map (\<lambda>(k, i, d, f). [k, i * f + d])
                             (zipn4 ks i_s d_s (pool_f o_s s_s i_s d_s ks)))) = Inr st3"
      and s4: "shrink st3 (map (\<lambda>x. (0, x)) A
                 @ concat (map (\<lambda>(k, o', s). [(0, k), (0, o' * s)]) (zipn3 ks o_s s_s))) = Inr st4"
      and r5: "reshape st4 (A @ concat (map (\<lambda>(k, o', s). [k, o', s]) (zipn3 ks o_s s_s))) = Inr st5"
      and s6: "shrink st5 (map (\<lambda>x. (0, x)) A
                 @ concat (map (\<lambda>(k, o', s). [(0, k), (0, o'), (0, 1)]) (zipn3 ks o_s s_s))) = Inr st6"
    from shrink_InrD [OF s4] reshape_InrD [OF r3]
    have c4: "list_all2 inRange
           (concat (map (\<lambda>(k, i, d, f). [k, i * f + d]) (zipn4 ks i_s d_s (f_list i_s d_s ks s_s))))
           (concat (map (\<lambda>(k, o', s). [(0, k), (0, o' * s)]) (zipn3 ks (o_list i_s d_s ks s_s) s_s)))"
      by (simp add: list_all2_append os pool_f_list [OF lens])
    from shrink_InrD [OF s6] reshape_InrD [OF r5]
    have c6: "list_all2 inRange
           (concat (map (\<lambda>(k, o', s). [k, o', s]) (zipn3 ks (o_list i_s d_s ks s_s) s_s)))
           (concat (map (\<lambda>(k, o', s). [(0, k), (0, o'), (0, 1)]) (zipn3 ks (o_list i_s d_s ks s_s) s_s)))"
      by (simp add: list_all2_append os)
    from lens pos c4 c6 show ?thesis by (rule axes_accepted)
  qed
qed

text \<open>
  C4, as stated, fails: on a view of shape \<open>[1]\<close> with kernel size 3, stride 1 and
  dilation 1 the claimed output extent is \<open>ceil((1 - 2) / 1) = -1\<close>, which is no extent.
  \<open>pool\<close> does not return a view there: the \<open>shrink\<close> to the range \<open>[0, -1]\<close> is
  rejected (\<open>prepareConv\<close> leaves the validity of the shapes to \<open>checkConvShape\<close>).
\<close>

theorem pool_kernel_too_large_counterexample:
  "pool (fromShape [1]) [3] (Number 1) (Number 1) = Inl InvalidShrink"
proof -
  have "(case pool (fromShape [1]) [3] (Number 1) (Number 1) of
           Inl e \<Rightarrow> e = InvalidShrink
         | Inr st \<Rightarrow> False)"
    by code_simp
  then show ?thesis by (simp split: sum.splits)
qed

text \<open>
  Two more inputs on which \<open>pool\<close> returns no view: a stride above \<open>2 * i + d\<close>, where
  the single duplication \<open>f = 2\<close> is too short for the strided window, and an empty list
  of kernel sizes on a view of two axes, where \<open>st.shape.slice(0, -0)\<close> is empty instead
  of the whole shape.
\<close>

lemma pool_large_stride_fails:
  "pool (fromShape [5]) [3] (Number 12) (Number 1) = Inl InvalidShrink"
proof -
  have "(case pool (fromShape [5]) [3] (Number 12) (Number 1) of
           Inl e \<Rightarrow> e = InvalidShrink
         | Inr st \<Rightarrow> False)"
    by code_simp
  then show ?thesis by (simp split: sum.splits)
qed

lemma pool_no_kernel_axes_fails:
  "pool (fromShape [2, 2]) [] (Number 1) (Number 1) = Inl InvalidRepeat"
proof -
  have "(case pool (fromShape [2, 2]) [] (Number 1) (Number 1) of
           Inl e \<Rightarrow> e = InvalidRepeat
         | Inr st \<Rightarrow> False)"
    by code_simp
  then show ?thesis by (simp split: sum.splits)
qed

text \<open>
  The pooling invariant of section 8 of the specification: over \<open>[1,2,3,4,5]\<close> with
  kernel size 3, stride 1 and dilation 1 the pooled view, read as
  \<open>[outputPos, windowPos]\<close>, addresses the windows \<open>[1,2,3]\<close>, \<open>[2,3,4]\<close>, \<open>[3,4,5]\<close>
  (the offsets 0 to 4 of the buffer).
\<close>

lemma pool_windows_example:
  "(case pool (fromShape [5]) [3] (Number 1) (Number 1) of
      Inl e \<Rightarrow> False
    | Inr st \<Rightarrow>
        shape st = [3, 3]
      \<and> map (\<lambda>p. map (\<lambda>w. addr st [p, w]) [0, 1, 2]) [0, 1, 2]
          = [[Some 0, Some 1, Some 2], [Some 1, Some 2, Some 3], [Some 2, Some 3, Some 4]])"
  by code_simp

text \<open>
  C4, amended. Let \<open>st\<close> be a view with at least \<open>ks.length\<close> axes, with one stride and
  one dilation per kernel axis. Whenever \<open>pool\<close> returns a view, its shape is
  \<open>[...leading, ...outputSizes, ...ks]\<close>, where \<open>leading\<close> is the shape of \<open>st\<close> without
  its trailing \<open>ks.length\<close> axes and the output extent of a trailing axis is
  \<open>o = ceil((i - d * (k - 1)) / s)\<close>. And \<open>pool\<close> does return such a view when \<open>ks\<close> is
  not empty (or \<open>st\<close> has no axis), no leading extent is negative, and on every trailing
  axis \<open>i \<ge> 1\<close>, \<open>s \<ge> 1\<close>, \<open>k \<ge> 0\<close>, \<open>o \<ge> 0\<close> and \<open>o * s \<le> i * f + d\<close> for the
  duplication factor \<open>f\<close> of that axis. By \<open>axisOk_positive_iff\<close>, for \<open>k, d \<ge> 1\<close>
  these conditions on an axis are \<open>i, s \<ge> 1\<close>, \<open>d * (k - 1) < i + s\<close>, and
  \<open>i \<le> d * (k - 1)\<close> or \<open>s \<le> 2 * i + d\<close>; by \<open>pool_returns_only_if\<close> no view without
  negative extents and with a non-empty \<open>ks\<close> is left out on which \<open>pool\<close> returns.
\<close>

theorem pool_shape:
  assumes "length ks \<le> length (shape st)"
    and "s_s = (case stridesArg of Number v \<Rightarrow> rep (length ks) v | Numbers l \<Rightarrow> l)"
    and "d_s = (case dilationArg of Number v \<Rightarrow> rep (length ks) v | Numbers l \<Rightarrow> l)"
    and "length s_s = length ks" and "length d_s = length ks"
    and "leading = take (length (shape st) - length ks) (shape st)"
    and "i_s = drop (length (shape st) - length ks) (shape st)"
    and "outputSizes = map (\<lambda>(i, d, k, s). \<lceil>rat_of_int (i - d * (k - 1)) / rat_of_int s\<rceil>)
                         (zipn4 i_s d_s ks s_s)"
  shows "(\<forall>st'. pool st ks stridesArg dilationArg = Inr st'
            \<longrightarrow> shape st' = leading @ outputSizes @ ks)
       \<and> ((ks \<noteq> [] \<or> shape st = [])
            \<and> list_all (\<lambda>n. 0 \<le> n) leading
            \<and> list_all (\<lambda>(i, d, k, s).
                  let o' = \<lceil>rat_of_int (i - d * (k - 1)) / rat_of_int s\<rceil>;
                      f = 1 + (if o' * s > i - d * (k - 1) then 1 else 0)
                  in 1 \<le> i \<and> 1 \<le> s \<and> 0 \<le> k \<and> 0 \<le> o' \<and> o' * s \<le> i * f + d)
                 (zipn4 i_s d_s ks s_s)
            \<longrightarrow> (\<exists>st'. pool st ks stridesArg dilationArg = Inr st'
                       \<and> shape st' = leading @ outputSizes @ ks))"
proof -
  have os: "outputSizes = o_list i_s d_s ks s_s"
    by (simp add: assms(8) o_list_def oF_def)
  have A: "shape st' = leading @ outputSizes @ ks"
    if ret: "pool st ks stridesArg dilationArg = Inr st'" for st'
  proof (cases "ks = []")
    case True
    with ret have "shape st = []" and "shape st' = []"
      using pool_no_kernel_shape by blast+
    with True assms(6) os show ?thesis by (simp add: o_list_def zipn4_def)
  next
    case False
    from False assms(1-7) ret show ?thesis unfolding os by (rule pool_returns_shape)
  qed
  have B: "\<exists>st'. pool st ks stridesArg dilationArg = Inr st'"
    if "ks \<noteq> [] \<or> shape st = []" and "list_all (\<lambda>n. 0 \<le> n) leading"
      and "list_all (\<lambda>(i, d, k, s).
                  let o' = \<lceil>rat_of_int (i - d * (k - 1)) / rat_of_int s\<rceil>;
                      f = 1 + (if o' * s > i - d * (k - 1) then 1 else 0)
                  in 1 \<le> i \<and> 1 \<le> s \<and> 0 \<le> k \<and> 0 \<le> o' \<and> o' * s \<le> i * f + d)
                 (zipn4 i_s d_s ks s_s)"
  proof (cases "ks = []")
    case True
    with that(1) have "shape st = []" by simp
    then show ?thesis unfolding True by (rule pool_no_kernel_returns)
  next
    case False
    from that(3) have "axesOk i_s d_s ks s_s"
      by (simp add: axesOk_def axisOk_def oF_def fF_def Let_def)
    with False assms(1-7) that(2) show ?thesis by (rule pool_returns)
  qed
  from A B show ?thesis by blast
qed

theorem pool_shape_witness:
  "length [3 :: int] \<le> length (shape (fromShape [2, 5]))
   \<and> [8] = (case Number 8 of Number v \<Rightarrow> rep (length [3 :: int]) v | Numbers l \<Rightarrow> l)
   \<and> [3 :: int] \<noteq> []
   \<and> list_all (\<lambda>n. (0 :: int) \<le> n) [2]
   \<and> list_all (\<lambda>(i, d, k, s).
         let o' = \<lceil>rat_of_int (i - d * (k - 1)) / rat_of_int s\<rceil>;
             f = 1 + (if o' * s > i - d * (k - 1) then 1 else 0)
         in 1 \<le> i \<and> 1 \<le> s \<and> 0 \<le> k \<and> 0 \<le> o' \<and> o' * s \<le> i * f + d)
        (zipn4 [5] [1] [3] [8 :: int])
   \<and> (\<exists>st'. pool (fromShape [2, 5]) [3] (Number 8) (Number 1) = Inr st'
         \<and> shape st' = [2, 1, 3]
         \<and> map (\<lambda>w. addr st' [1, 0, w]) [0, 1, 2] = [Some 5, Some 6, Some 7])"
proof -
  have h1: "length [3 :: int] \<le> length (shape (fromShape [2, 5]))"
    and h2: "[8] = (case Number 8 of Number v \<Rightarrow> rep (length [3 :: int]) v | Numbers l \<Rightarrow> l)"
    and h3: "[1] = (case Number 1 of Number v \<Rightarrow> rep (length [3 :: int]) v | Numbers l \<Rightarrow> l)"
    and h4: "length [8 :: int] = length [3 :: int]" and h5: "length [1 :: int] = length [3 :: int]"
    and h6: "[2] = take (length (shape (fromShape [2, 5])) - length [3 :: int]) (shape (fromShape [2, 5]))"
    and h7: "[5] = drop (length (shape (fromShape [2, 5])) - length [3 :: int]) (shape (fromShape [2, 5]))"
    and h8: "[1] = map (\<lambda>(i, d, k, s). \<lceil>rat_of_int (i - d * (k - 1)) / rat_of_int s\<rceil>)
                         (zipn4 [5] [1] [3] [8])"
    by (simp_all add: fromShape_def rep_def zipn4_def)
  have ne: "[3 :: int] \<noteq> []" by simp
  have n: "list_all (\<lambda>n. (0 :: int) \<le> n) [2]" by simp
  have c: "list_all (\<lambda>(i, d, k, s).
         let o' = \<lceil>rat_of_int (i - d * (k - 1)) / rat_of_int s\<rceil>;
             f = 1 + (if o' * s > i - d * (k - 1) then 1 else 0)
         in 1 \<le> i \<and> 1 \<le> s \<and> 0 \<le> k \<and> 0 \<le> o' \<and> o' * s \<le> i * f + d)
        (zipn4 [5] [1] [3] [8 :: int])"
    by (simp add: zipn4_def)
  from pool_shape [OF h1 h2 h3 h4 h5 h6 h7 h8] ne n c
  obtain st' where r: "pool (fromShape [2, 5]) [3] (Number 8) (Number 1) = Inr st'"
    and sh: "shape st' = [2] @ [1] @ [3]"
    by blast
  have "(case pool (fromShape [2, 5]) [3] (Number 8) (Number 1) of
           Inl e \<Rightarrow> False
         | Inr st \<Rightarrow> map (\<lambda>w. addr st [1, 0, w]) [0, 1, 2] = [Some 5, Some 6, Some 7])"
    by code_simp
  with r have "map (\<lambda>w. addr st' [1, 0, w]) [0, 1, 2] = [Some 5, Some 6, Some 7]"
    by simp
  with r sh have "\<exists>st'. pool (fromShape [2, 5]) [3] (Number 8) (Number 1) = Inr st'
         \<and> shape st' = [2, 1, 3]
         \<and> map (\<lambda>w. addr st' [1, 0, w]) [0, 1, 2] = [Some 5, Some 6, Some 7]"
    by (intro exI [of _ st'] conjI) simp_all
  with h1 h2 ne n c show ?thesis by (intro conjI)
qed

end
